theory Spec2Isabelle
  imports Complex_Main
begin

section \<open>Numbers, errors and arrays\<close>

text \<open>
  The program is \<^verbatim>\<open>mpflow.py\<close>: a two-point flux pressure solver on a rectangular
  grid, written with numpy arrays and scipy sparse matrices. Array entries are modelled
  as real numbers, so every statement below is about exact arithmetic; the rounding of
  the machine's floating point numbers is not part of the model. A Python exception is
  a value of type \<open>error\<close>, and a function that may raise returns \<open>error + 'a\<close>.
\<close>

datatype error =
  AssertionError | ValueError | AttributeError | IndexError | KeyError | ZeroDivisionError

text \<open>Sequencing: the second step runs on the result of the first unless that raised.\<close>

definition on_ok :: "error + 'a \<Rightarrow> ('a \<Rightarrow> error + 'b) \<Rightarrow> error + 'b" where
  "on_ok m f = (case m of Inl e \<Rightarrow> Inl e | Inr x \<Rightarrow> f x)"

type_synonym arr1 = "real list"
type_synonym arr2 = "real list list"
type_synonym arr3 = "real list list list"

text \<open>
  A numpy array of one, two or three dimensions. A two-dimensional array of shape
  \<open>(r, c)\<close> is the list of its \<open>r\<close> rows, each of length \<open>c\<close>.
\<close>

datatype ndarray = A1 arr1 | A2 arr2 | A3 arr3

definition has_shape :: "nat \<Rightarrow> nat \<Rightarrow> 'a list list \<Rightarrow> bool" where
  "has_shape r c a = (length a = r \<and> list_all (\<lambda>row. length row = c) a)"

definition zeros2 :: "nat \<Rightarrow> nat \<Rightarrow> arr2" where
  "zeros2 r c = replicate r (replicate c 0)"

text \<open>\<^verbatim>\<open>a[:, lo:hi]\<close> and \<^verbatim>\<open>a[lo:hi, :]\<close>, for \<open>0 \<le> lo\<close> and \<open>0 \<le> hi\<close>.\<close>

definition slice_cols :: "nat \<Rightarrow> nat \<Rightarrow> 'a list list \<Rightarrow> 'a list list" where
  "slice_cols lo hi a = map (\<lambda>row. take (hi - lo) (drop lo row)) a"

definition slice_rows :: "nat \<Rightarrow> nat \<Rightarrow> 'a list list \<Rightarrow> 'a list list" where
  "slice_rows lo hi a = take (hi - lo) (drop lo a)"

text \<open>
  \<^verbatim>\<open>a[:, lo:hi] = b\<close> and \<^verbatim>\<open>a[lo:hi, :] = b\<close>, where \<open>b\<close> has the shape of the
  slice it replaces (numpy raises or broadcasts otherwise; every use below is at
  matching shapes when the permeability field has the documented shape \<open>(ny, nx)\<close>).
\<close>

definition set_cols :: "nat \<Rightarrow> nat \<Rightarrow> arr2 \<Rightarrow> arr2 \<Rightarrow> arr2" where
  "set_cols lo hi a b = map2 (\<lambda>row brow. take lo row @ brow @ drop hi row) a b"

definition set_rows :: "nat \<Rightarrow> nat \<Rightarrow> arr2 \<Rightarrow> arr2 \<Rightarrow> arr2" where
  "set_rows lo hi a b = take lo a @ b @ drop hi a"

text \<open>Elementwise arithmetic on arrays of equal shape, and a scalar divided by an array.\<close>

definition add1 :: "arr1 \<Rightarrow> arr1 \<Rightarrow> arr1" where
  "add1 a b = map2 (+) a b"


definition neg1 :: "arr1 \<Rightarrow> arr1" where
  "neg1 a = map uminus a"

definition add2 :: "arr2 \<Rightarrow> arr2 \<Rightarrow> arr2" where
  "add2 a b = map2 (map2 (+)) a b"

definition sub2 :: "arr2 \<Rightarrow> arr2 \<Rightarrow> arr2" where
  "sub2 a b = map2 (map2 (-)) a b"

definition mul2 :: "arr2 \<Rightarrow> arr2 \<Rightarrow> arr2" where
  "mul2 a b = map2 (map2 (*)) a b"

definition rdiv2 :: "real \<Rightarrow> arr2 \<Rightarrow> arr2" where
  "rdiv2 c a = map (map (\<lambda>x. c / x)) a"

text \<open>
  \<^verbatim>\<open>a.reshape(n)\<close> of a two- or three-dimensional array (row-major order), and
  \<^verbatim>\<open>a.reshape(r, c)\<close> of a flat one; both raise ValueError when the sizes differ.
\<close>

definition reshape1 :: "nat \<Rightarrow> arr1 \<Rightarrow> error + arr1" where
  "reshape1 n flat = (if length flat = n then Inr flat else Inl ValueError)"

fun chunks :: "nat \<Rightarrow> nat \<Rightarrow> 'a list \<Rightarrow> 'a list list" where
  "chunks 0 c xs = []"
| "chunks (Suc r) c xs = take c xs # chunks r c (drop c xs)"

definition reshape2 :: "nat \<Rightarrow> nat \<Rightarrow> arr1 \<Rightarrow> error + arr2" where
  "reshape2 r c flat = (if length flat = r * c then Inr (chunks r c flat) else Inl ValueError)"

fun ravel :: "ndarray \<Rightarrow> arr1" where
  "ravel (A1 a) = a"
| "ravel (A2 a) = concat a"
| "ravel (A3 a) = concat (concat a)"

section \<open>Grid\<close>

text \<open>
  \<^verbatim>\<open>Grid.__init__\<close> stores the resolution and the extents and derives the cell
  count, the cell dimensions and the cell volume. Python's \<^verbatim>\<open>lx/nx\<close> raises
  ZeroDivisionError for \<open>nx = 0\<close>. The resolution is a natural number: the array
  constructors the grid is used with accept no negative dimension.
\<close>

record Grid =
  nx :: nat
  ny :: nat
  lx :: real
  ly :: real
  ncell :: nat
  dx :: real
  dy :: real
  vol :: real

definition Grid_init :: "nat \<Rightarrow> nat \<Rightarrow> real \<Rightarrow> real \<Rightarrow> error + Grid" where
  "Grid_init nx0 ny0 lx0 ly0 =
     (if nx0 = 0 \<or> ny0 = 0 then Inl ZeroDivisionError
      else Inr \<lparr>nx = nx0, ny = ny0, lx = lx0, ly = ly0,
                ncell = nx0 * ny0,
                dx = lx0 / real nx0, dy = ly0 / real ny0,
                vol = (lx0 / real nx0) * (ly0 / real ny0)\<rparr>)"

section \<open>Sparse matrices\<close>

text \<open>
  A scipy CSR matrix in canonical format: for every row the stored entries, as pairs of
  a column index and a value, in the order of the columns. \<open>entry\<close> reads
  \<^verbatim>\<open>mat[i, j]\<close>: the stored value, or zero where nothing is stored.
\<close>

record csr_matrix =
  nrows :: nat
  ncols :: nat
  rowdata :: "(nat \<times> real) list list"

definition entry :: "csr_matrix \<Rightarrow> nat \<Rightarrow> nat \<Rightarrow> real" where
  "entry mat i j = (case map_of (rowdata mat ! i) j of None \<Rightarrow> 0 | Some x \<Rightarrow> x)"


definition canonical :: "csr_matrix \<Rightarrow> bool" where
  "canonical mat = (length (rowdata mat) = nrows mat \<and>
                    list_all (\<lambda>row. distinct (map fst row)) (rowdata mat))"

text \<open>
  The product of a matrix with a vector at one row, and what it means for a vector to
  solve a linear system exactly: the contract of the linear solver.
\<close>

definition matvec :: "csr_matrix \<Rightarrow> arr1 \<Rightarrow> nat \<Rightarrow> real" where
  "matvec mat x r = sum_list (map (\<lambda>c. entry mat r c * x ! c) [0..<ncols mat])"

definition solves :: "csr_matrix \<Rightarrow> arr1 \<Rightarrow> arr1 \<Rightarrow> bool" where
  "solves mat b x =
     (length x = ncols mat \<and> list_all (\<lambda>r. matvec mat x r = b ! r) [0..<nrows mat])"

text \<open>
  \<^verbatim>\<open>scipy.sparse.spdiags(data, diags, m, n, format='csr')\<close>. Row \<open>k\<close> of \<open>data\<close> is
  the diagonal with offset \<open>diags[k]\<close>, indexed by column: the entry of the matrix at
  row \<open>i\<close> and column \<open>j\<close> is \<open>data[k][j]\<close> for the \<open>k\<close> with \<open>diags[k] = j - i\<close>.
  The constructor of the diagonal format raises ValueError when an offset is listed
  twice, and the conversion to CSR stores no zero.
\<close>

definition dia_lookup :: "arr1 list \<Rightarrow> int list \<Rightarrow> nat \<Rightarrow> nat \<Rightarrow> real option" where
  "dia_lookup data diags i j =
     (case find (\<lambda>(d, r). d = int j - int i) (zip diags data) of
        None \<Rightarrow> None
      | Some (d, r) \<Rightarrow> if j < length r then Some (r ! j) else None)"

definition dia_row :: "arr1 list \<Rightarrow> int list \<Rightarrow> nat \<Rightarrow> nat \<Rightarrow> (nat \<times> real) list" where
  "dia_row data diags n i =
     concat (map (\<lambda>j. case dia_lookup data diags i j of
                         None \<Rightarrow> []
                       | Some x \<Rightarrow> if x = 0 then [] else [(j, x)]) [0..<n])"

definition spdiags :: "arr1 list \<Rightarrow> int list \<Rightarrow> nat \<Rightarrow> nat \<Rightarrow> error + csr_matrix" where
  "spdiags data diags m n =
     (if \<not> distinct diags then Inl ValueError
      else Inr \<lparr>nrows = m, ncols = n, rowdata = map (dia_row data diags n) [0..<m]\<rparr>)"

section \<open>Transmissibility assembler\<close>

text \<open>
  \<^verbatim>\<open>transmi(grid, k)\<close>, line by line. \<^verbatim>\<open>1.0/k\<close> is numpy's elementwise division
  (no exception); \<^verbatim>\<open>2*dy/dx\<close> and \<^verbatim>\<open>2*dx/dy\<close> divide Python floats and raise
  ZeroDivisionError for a zero divisor.
\<close>

definition transmi :: "Grid \<Rightarrow> arr2 \<Rightarrow> error + (csr_matrix \<times> arr2 \<times> arr2)" where
  "transmi grid k =
     (let nx = nx grid; ny = ny grid; dx = dx grid; dy = dy grid; n = ncell grid;
          kinv = rdiv2 1 k
      in if dx = 0 \<or> dy = 0 then Inl ZeroDivisionError
         else
           let ax = 2 * dy / dx;
               ay = 2 * dx / dy;
               tx = set_cols 1 nx (zeros2 ny (nx + 1))
                      (rdiv2 ax (add2 (slice_cols 0 (nx - 1) kinv) (slice_cols 1 nx kinv)));
               ty = set_rows 1 ny (zeros2 (ny + 1) nx)
                      (rdiv2 ay (add2 (slice_rows 0 (ny - 1) kinv) (slice_rows 1 ny kinv)))
           in on_ok (reshape1 n (concat (slice_cols 0 nx tx))) (\<lambda>x1.
              on_ok (reshape1 n (concat (slice_cols 1 (nx + 1) tx))) (\<lambda>x2.
              on_ok (reshape1 n (concat (slice_rows 0 ny ty))) (\<lambda>y1.
              on_ok (reshape1 n (concat (slice_rows 1 (ny + 1) ty))) (\<lambda>y2.
                let data = [neg1 y2, neg1 x2, add1 (add1 (add1 x1 x2) y1) y2, neg1 x1, neg1 y1];
                    diags = [- int nx, - 1, 0, 1, int nx]
                in on_ok (spdiags data diags n n) (\<lambda>mat. Inr (mat, tx, ty)))))))"

text \<open>
  Names for the intermediate arrays of \<^verbatim>\<open>transmi\<close>, for use in the proofs: the face
  transmissibilities \<^verbatim>\<open>tx\<close> and \<^verbatim>\<open>ty\<close>, the flattened slices \<^verbatim>\<open>x1\<close>,
  \<^verbatim>\<open>x2\<close>, \<^verbatim>\<open>y1\<close>, \<^verbatim>\<open>y2\<close>, and the list of diagonals \<^verbatim>\<open>data\<close>.
\<close>

definition face_tx :: "Grid \<Rightarrow> arr2 \<Rightarrow> arr2" where
  "face_tx grid k =
     set_cols 1 (nx grid) (zeros2 (ny grid) (nx grid + 1))
       (rdiv2 (2 * dy grid / dx grid)
          (add2 (slice_cols 0 (nx grid - 1) (rdiv2 1 k)) (slice_cols 1 (nx grid) (rdiv2 1 k))))"

definition face_ty :: "Grid \<Rightarrow> arr2 \<Rightarrow> arr2" where
  "face_ty grid k =
     set_rows 1 (ny grid) (zeros2 (ny grid + 1) (nx grid))
       (rdiv2 (2 * dx grid / dy grid)
          (add2 (slice_rows 0 (ny grid - 1) (rdiv2 1 k)) (slice_rows 1 (ny grid) (rdiv2 1 k))))"

definition flat_x1 :: "Grid \<Rightarrow> arr2 \<Rightarrow> arr1" where
  "flat_x1 grid k = concat (slice_cols 0 (nx grid) (face_tx grid k))"

definition flat_x2 :: "Grid \<Rightarrow> arr2 \<Rightarrow> arr1" where
  "flat_x2 grid k = concat (slice_cols 1 (nx grid + 1) (face_tx grid k))"

definition flat_y1 :: "Grid \<Rightarrow> arr2 \<Rightarrow> arr1" where
  "flat_y1 grid k = concat (slice_rows 0 (ny grid) (face_ty grid k))"

definition flat_y2 :: "Grid \<Rightarrow> arr2 \<Rightarrow> arr1" where
  "flat_y2 grid k = concat (slice_rows 1 (ny grid + 1) (face_ty grid k))"

definition transmi_data :: "Grid \<Rightarrow> arr2 \<Rightarrow> arr1 list" where
  "transmi_data grid k =
     [neg1 (flat_y2 grid k), neg1 (flat_x2 grid k),
      add1 (add1 (add1 (flat_x1 grid k) (flat_x2 grid k)) (flat_y1 grid k)) (flat_y2 grid k),
      neg1 (flat_x1 grid k), neg1 (flat_y1 grid k)]"

section \<open>Convection assembler\<close>







section \<open>Boundary imposer\<close>

text \<open>
  Modelled from the spec: \<^verbatim>\<open>utils.csr_row_set_nz_to_val\<close>, a function of the module
  \<^verbatim>\<open>utils\<close> that the source imports and that is not among the source files. The spec
  (section 6) describes it as the sparse row-zeroing primitive: given a sparse matrix and
  a row index, it overwrites every stored entry of that row and alters the storage of no
  other row. Reading the row pointer of a row that does not exist raises IndexError.
\<close>

definition csr_row_set_nz_to_val :: "csr_matrix \<Rightarrow> nat \<Rightarrow> real \<Rightarrow> error + csr_matrix" where
  "csr_row_set_nz_to_val mat row x =
     (if row < length (rowdata mat)
      then Inr (mat\<lparr>rowdata := (rowdata mat)[row := map (\<lambda>(c, y). (c, x)) (rowdata mat ! row)]\<rparr>)
      else Inl IndexError)"

text \<open>
  \<^verbatim>\<open>mat[i, j] = x\<close> on a CSR matrix in canonical format: a stored entry is overwritten,
  a missing one is inserted at its place in the order of the columns. An index outside
  the shape raises IndexError.
\<close>

definition row_store :: "nat \<Rightarrow> real \<Rightarrow> (nat \<times> real) list \<Rightarrow> (nat \<times> real) list" where
  "row_store j x row =
     (if j \<in> set (map fst row)
      then map (\<lambda>(c, y). if c = j then (c, x) else (c, y)) row
      else insort_key fst (j, x) row)"

definition csr_setitem :: "csr_matrix \<Rightarrow> nat \<Rightarrow> nat \<Rightarrow> real \<Rightarrow> error + csr_matrix" where
  "csr_setitem mat i j x =
     (if i < length (rowdata mat) \<and> i < nrows mat \<and> j < ncols mat
      then Inr (mat\<lparr>rowdata := (rowdata mat)[i := row_store j x (rowdata mat ! i)]\<rparr>)
      else Inl IndexError)"

text \<open>\<^verbatim>\<open>q[i] = val\<close> on a one-dimensional array.\<close>

definition setitem1 :: "arr1 \<Rightarrow> nat \<Rightarrow> real \<Rightarrow> error + arr1" where
  "setitem1 q i x = (if i < length q then Inr (q[i := x]) else Inl IndexError)"

text \<open>\<^verbatim>\<open>mat.eliminate_zeros()\<close>: every stored zero leaves the storage.\<close>

definition eliminate_zeros :: "csr_matrix \<Rightarrow> csr_matrix" where
  "eliminate_zeros mat = mat\<lparr>rowdata := map (filter (\<lambda>(c, y). y \<noteq> 0)) (rowdata mat)\<rparr>"

text \<open>
  \<^verbatim>\<open>impose_diriBC(mat, q, diriBC)\<close> works in place; the model returns the matrix and the
  right-hand side it leaves behind. The loop body is \<open>impose_pin\<close>. Cell indices are
  natural numbers (Python's negative indices, which count from the end, are left out).
\<close>

definition impose_pin :: "csr_matrix \<times> arr1 \<Rightarrow> nat \<times> real \<Rightarrow> error + (csr_matrix \<times> arr1)" where
  "impose_pin st pin =
     (case (st, pin) of ((mat, q), (i, val)) \<Rightarrow>
        on_ok (csr_row_set_nz_to_val mat i 0) (\<lambda>mat1.
        on_ok (csr_setitem mat1 i i 1) (\<lambda>mat2.
        on_ok (setitem1 q i val) (\<lambda>q1. Inr (mat2, q1)))))"

fun impose_loop :: "csr_matrix \<times> arr1 \<Rightarrow> (nat \<times> real) list \<Rightarrow> error + (csr_matrix \<times> arr1)" where
  "impose_loop st [] = Inr st"
| "impose_loop st (pin # rest) = on_ok (impose_pin st pin) (\<lambda>st1. impose_loop st1 rest)"

definition impose_diriBC ::
  "csr_matrix \<Rightarrow> arr1 \<Rightarrow> (nat \<times> real) list \<Rightarrow> error + (csr_matrix \<times> arr1)" where
  "impose_diriBC mat q diriBC =
     on_ok (impose_loop (mat, q) diriBC) (\<lambda>(mat1, q1). Inr (eliminate_zeros mat1, q1))"

section \<open>Pressure solver\<close>

text \<open>
  The object's state. \<open>self_k\<close> and \<open>self_diriBC\<close> are the private attributes
  \<^verbatim>\<open>__k\<close> and \<^verbatim>\<open>__diriBC\<close> behind the properties \<^verbatim>\<open>k\<close> and \<^verbatim>\<open>diriBC\<close>; an
  attribute that was never assigned is \<open>None\<close>, and reading it raises AttributeError.
  \<open>dict_k\<close> and \<open>dict_diriBC\<close> are the entries \<^verbatim>\<open>'k'\<close> and \<^verbatim>\<open>'diriBC'\<close> of the
  instance dictionary: \<^verbatim>\<open>update\<close> writes them, and no attribute access reads them,
  because a property with a setter is looked up on the class before the instance
  dictionary. The mobility function is a function from the saturation to the pair of
  mobilities.
\<close>

record PressureSolver =
  self_grid :: Grid
  self_k :: "arr2 option"
  self_q :: ndarray
  self_diriBC :: "(nat \<times> real) list option"
  self_mobi_fn :: "(ndarray \<Rightarrow> ndarray \<times> ndarray) option"
  self_s :: "ndarray option"
  self_p :: "arr2 option"
  self_v :: "(string \<rightharpoonup> ndarray) option"
  dict_k :: "arr2 option"
  dict_diriBC :: "(nat \<times> real) list option"

text \<open>
  The truth value of a one-dimensional numpy array: that of its element when it has
  exactly one, ValueError ("the truth value of an array with more than one element is
  ambiguous") when it has more, and false (with a deprecation warning) when it is empty.
\<close>

fun array_bool :: "bool list \<Rightarrow> error + bool" where
  "array_bool [] = Inr False"
| "array_bool [b] = Inr b"
| "array_bool (b # c # bs) = Inl ValueError"

text \<open>
  Python's builtin \<^verbatim>\<open>all\<close>, the only \<^verbatim>\<open>all\<close> in scope (the source imports
  \<^verbatim>\<open>array, asarray, copy, zeros, ones, maximum, minimum\<close> from numpy, not \<^verbatim>\<open>all\<close>).
  It iterates over its argument, here over the rows of the two-dimensional array
  \<^verbatim>\<open>k > 0\<close>, takes the truth value of each, and stops at the first false one.
\<close>

fun py_all :: "bool list list \<Rightarrow> error + bool" where
  "py_all [] = Inr True"
| "py_all (row # rest) = on_ok (array_bool row) (\<lambda>b. if b then py_all rest else Inr False)"

text \<open>The setter and the getter of the property \<^verbatim>\<open>k\<close>.\<close>

definition k_setter :: "PressureSolver \<Rightarrow> arr2 \<Rightarrow> error + PressureSolver" where
  "k_setter self k =
     on_ok (py_all (map (map (\<lambda>x. 0 < x)) k)) (\<lambda>ok.
       if ok then Inr (self\<lparr>self_k := Some k\<rparr>) else Inl AssertionError)"

definition k_getter :: "PressureSolver \<Rightarrow> error + arr2" where
  "k_getter self = (case self_k self of None \<Rightarrow> Inl AttributeError | Some k \<Rightarrow> Inr k)"

text \<open>
  The setter and the getter of the property \<^verbatim>\<open>diriBC\<close>. The setter assigns the
  default pin when it is given \<^verbatim>\<open>None\<close> and has no other branch.
\<close>

definition diriBC_setter :: "PressureSolver \<Rightarrow> (nat \<times> real) list option \<Rightarrow> PressureSolver" where
  "diriBC_setter self diriBC =
     (case diriBC of
        None \<Rightarrow> self\<lparr>self_diriBC := Some [(ncell (self_grid self) div 2, 0)]\<rparr>
      | Some pins \<Rightarrow> self)"

definition diriBC_getter :: "PressureSolver \<Rightarrow> error + (nat \<times> real) list" where
  "diriBC_getter self =
     (case self_diriBC self of None \<Rightarrow> Inl AttributeError | Some pins \<Rightarrow> Inr pins)"

text \<open>
  \<^verbatim>\<open>PressureSolver.__init__\<close>: the attributes are assigned in the order \<^verbatim>\<open>grid\<close>,
  \<^verbatim>\<open>k\<close> (through its setter), \<^verbatim>\<open>q\<close>, \<^verbatim>\<open>diriBC\<close> (through its setter),
  \<^verbatim>\<open>mobi_fn\<close>, \<^verbatim>\<open>s\<close>, \<^verbatim>\<open>p\<close>, \<^verbatim>\<open>v\<close>.
\<close>

definition blank :: "Grid \<Rightarrow> ndarray \<Rightarrow> PressureSolver" where
  "blank grid q = \<lparr>self_grid = grid, self_k = None, self_q = q, self_diriBC = None,
                   self_mobi_fn = None, self_s = None, self_p = None, self_v = None,
                   dict_k = None, dict_diriBC = None\<rparr>"

definition PressureSolver_init ::
  "Grid \<Rightarrow> arr2 \<Rightarrow> ndarray \<Rightarrow> (nat \<times> real) list option \<Rightarrow>
   (ndarray \<Rightarrow> ndarray \<times> ndarray) option \<Rightarrow> ndarray option \<Rightarrow> error + PressureSolver" where
  "PressureSolver_init grid k q diriBC mobi_fn s =
     on_ok (k_setter (blank grid q) k) (\<lambda>self1.
       Inr ((diriBC_setter self1 diriBC)\<lparr>self_mobi_fn := mobi_fn, self_s := s\<rparr>))"

text \<open>
  \<^verbatim>\<open>update(**params)\<close> is \<^verbatim>\<open>self.__dict__.update(params)\<close>: each named value goes
  into the instance dictionary under its name. The names are those of the constructor's
  parameters.
\<close>

datatype param =
  P_grid Grid
| P_k arr2
| P_q ndarray
| P_diriBC "(nat \<times> real) list"
| P_mobi_fn "(ndarray \<Rightarrow> ndarray \<times> ndarray) option"
| P_s "ndarray option"

fun store_param :: "param \<Rightarrow> PressureSolver \<Rightarrow> PressureSolver" where
  "store_param (P_grid g) self = self\<lparr>self_grid := g\<rparr>"
| "store_param (P_k k) self = self\<lparr>dict_k := Some k\<rparr>"
| "store_param (P_q q) self = self\<lparr>self_q := q\<rparr>"
| "store_param (P_diriBC pins) self = self\<lparr>dict_diriBC := Some pins\<rparr>"
| "store_param (P_mobi_fn f) self = self\<lparr>self_mobi_fn := f\<rparr>"
| "store_param (P_s s) self = self\<lparr>self_s := s\<rparr>"

definition update :: "PressureSolver \<Rightarrow> param list \<Rightarrow> PressureSolver" where
  "update self params = fold store_param params self"

text \<open>
  \<^verbatim>\<open>step()\<close>. The linear solver \<^verbatim>\<open>spsolve\<close> is a parameter of the model. The
  warning of the single-phase branch has no effect on the result and is left out.
  \<open>step_fields\<close> is the body up to the pressure and the flux it computes.
\<close>

definition effective_k :: "PressureSolver \<Rightarrow> arr2 \<Rightarrow> error + arr2" where
  "effective_k self k =
     (case (self_mobi_fn self, self_s self) of
        (Some mobi_fn, Some s) \<Rightarrow>
          (case mobi_fn s of (mw, mo) \<Rightarrow>
             on_ok (reshape2 (ny (self_grid self)) (nx (self_grid self))
                      (add1 (ravel mw) (ravel mo)))
                   (\<lambda>m. Inr (mul2 k m)))
      | _ \<Rightarrow> Inr k)"

definition step_fields ::
  "(csr_matrix \<Rightarrow> arr1 \<Rightarrow> error + arr1) \<Rightarrow> PressureSolver \<Rightarrow>
   error + (arr2 \<times> (string \<rightharpoonup> ndarray))" where
  "step_fields spsolve self =
     (let grid = self_grid self; nx = nx grid; ny = ny grid
      in on_ok (k_getter self) (\<lambda>k0.
         on_ok (effective_k self k0) (\<lambda>k.
         on_ok (transmi grid k) (\<lambda>(mat, tx, ty).
         on_ok (diriBC_getter self) (\<lambda>pins.
         on_ok (impose_diriBC mat (ravel (self_q self)) pins) (\<lambda>(mat1, q).
         on_ok (spsolve mat1 q) (\<lambda>pflat.
         on_ok (reshape2 ny nx pflat) (\<lambda>p.
           let vx = set_cols 1 nx (zeros2 ny (nx + 1))
                      (mul2 (sub2 (slice_cols 0 (nx - 1) p) (slice_cols 1 nx p))
                            (slice_cols 1 nx tx));
               vy = set_rows 1 ny (zeros2 (ny + 1) nx)
                      (mul2 (sub2 (slice_rows 0 (ny - 1) p) (slice_rows 1 ny p))
                            (slice_rows 1 ny ty))
           in Inr (p, [''x'' \<mapsto> A2 vx, ''y'' \<mapsto> A2 vy])))))))))"

text \<open>The last line of \<^verbatim>\<open>step()\<close>: \<^verbatim>\<open>self.p, self.v = p, v\<close>.\<close>

definition step ::
  "(csr_matrix \<Rightarrow> arr1 \<Rightarrow> error + arr1) \<Rightarrow> PressureSolver \<Rightarrow> error + PressureSolver" where
  "step spsolve self =
     on_ok (step_fields spsolve self) (\<lambda>(p, v). Inr (self\<lparr>self_p := Some p, self_v := Some v\<rparr>))"

section \<open>The assembled pressure matrix\<close>

text \<open>
  Facts about arrays of a given shape, about the faces of the grid and about the five
  diagonals, then the claims about \<^verbatim>\<open>transmi\<close>.
\<close>

lemmas eval_defs =
  on_ok_def Grid_init_def PressureSolver_init_def k_setter_def k_getter_def
  diriBC_setter_def diriBC_getter_def blank_def update_def

lemmas step_defs =
  step_def step_fields_def effective_k_def transmi_def Let_def reshape1_def zeros2_def set_cols_def
  set_rows_def slice_cols_def slice_rows_def rdiv2_def add2_def spdiags_def

lemma has_shape_row: "has_shape r c a \<Longrightarrow> i < r \<Longrightarrow> length (a ! i) = c"
  by (simp add: has_shape_def list_all_length)

lemma has_shape_length: "has_shape r c a \<Longrightarrow> length a = r"
  by (simp add: has_shape_def)

lemma has_shapeI: "length a = r \<Longrightarrow> (\<And>i. i < r \<Longrightarrow> length (a ! i) = c) \<Longrightarrow> has_shape r c a"
  by (simp add: has_shape_def list_all_length)

lemma length_concat_shape: "has_shape r c a \<Longrightarrow> length (concat a) = r * c"
proof (induction a arbitrary: r)
  case Nil
  then show ?case by (simp add: has_shape_def)
next
  case (Cons row a)
  then obtain r' where r: "r = Suc r'" "has_shape r' c a" "length row = c"
    by (auto simp: has_shape_def)
  with Cons.IH[of r'] show ?case by simp
qed

lemma concat_nth_shape:
  "has_shape r c a \<Longrightarrow> i < r \<Longrightarrow> j < c \<Longrightarrow> concat a ! (i * c + j) = a ! i ! j"
proof (induction a arbitrary: r i)
  case Nil
  then show ?case by (simp add: has_shape_def)
next
  case (Cons row a)
  then obtain r' where r: "r = Suc r'" "has_shape r' c a" "length row = c"
    by (auto simp: has_shape_def)
  show ?case
  proof (cases i)
    case 0
    with Cons.prems r show ?thesis by (simp add: nth_append)
  next
    case (Suc i')
    with Cons.prems r have "i' < r'" by simp
    from Cons.IH[OF r(2) this Cons.prems(3)] Suc r show ?thesis
      by (simp add: nth_append)
  qed
qed

lemma shape_slice_cols:
  "has_shape r c a \<Longrightarrow> lo \<le> hi \<Longrightarrow> hi \<le> c \<Longrightarrow> has_shape r (hi - lo) (slice_cols lo hi a)"
  by (auto simp: has_shape_def slice_cols_def list_all_iff)

lemma nth_slice_cols:
  "has_shape r c a \<Longrightarrow> i < r \<Longrightarrow> lo + j < hi \<Longrightarrow> hi \<le> c \<Longrightarrow> slice_cols lo hi a ! i ! j = a ! i ! (lo + j)"
  by (simp add: slice_cols_def has_shape_def list_all_length)

lemma shape_slice_rows:
  "has_shape r c a \<Longrightarrow> lo \<le> hi \<Longrightarrow> hi \<le> r \<Longrightarrow> has_shape (hi - lo) c (slice_rows lo hi a)"
  by (auto simp: has_shape_def slice_rows_def list_all_iff dest: in_set_takeD in_set_dropD)

lemma nth_slice_rows:
  "has_shape r c a \<Longrightarrow> lo + i < hi \<Longrightarrow> hi \<le> r \<Longrightarrow> slice_rows lo hi a ! i = a ! (lo + i)"
  by (simp add: slice_rows_def has_shape_def)

lemma flatten_lengths:
  assumes "has_shape h (w + 1) a" "has_shape (h + 1) w b"
  shows "length (concat (slice_cols 0 w a)) = h * w"
    and "length (concat (slice_cols 1 (w + 1) a)) = h * w"
    and "length (concat (slice_rows 0 h b)) = h * w"
    and "length (concat (slice_rows 1 (h + 1) b)) = h * w"
  using shape_slice_cols[OF assms(1), of 0 w] shape_slice_cols[OF assms(1), of 1 "w + 1"]
    shape_slice_rows[OF assms(2), of 0 h] shape_slice_rows[OF assms(2), of 1 "h + 1"]
  by (simp_all add: length_concat_shape)

lemma flatten_nth:
  assumes "has_shape h (w + 1) a" "has_shape (h + 1) w b" "i < h" "j < w"
  shows "concat (slice_cols 0 w a) ! (i * w + j) = a ! i ! j"
    and "concat (slice_cols 1 (w + 1) a) ! (i * w + j) = a ! i ! (j + 1)"
    and "concat (slice_rows 0 h b) ! (i * w + j) = b ! i ! j"
    and "concat (slice_rows 1 (h + 1) b) ! (i * w + j) = b ! (i + 1) ! j"
proof -
  have s1: "has_shape h w (slice_cols 0 w a)"
    using shape_slice_cols[OF assms(1), of 0 w] by simp
  have s2: "has_shape h w (slice_cols 1 (w + 1) a)"
    using shape_slice_cols[OF assms(1), of 1 "w + 1"] by simp
  have s3: "has_shape h w (slice_rows 0 h b)"
    using shape_slice_rows[OF assms(2), of 0 h] by simp
  have s4: "has_shape h w (slice_rows 1 (h + 1) b)"
    using shape_slice_rows[OF assms(2), of 1 "h + 1"] by simp
  show "concat (slice_cols 0 w a) ! (i * w + j) = a ! i ! j"
    unfolding concat_nth_shape[OF s1 assms(3,4)]
    using nth_slice_cols[OF assms(1,3), of 0 j w] assms(4) by simp
  show "concat (slice_cols 1 (w + 1) a) ! (i * w + j) = a ! i ! (j + 1)"
    unfolding concat_nth_shape[OF s2 assms(3,4)]
    using nth_slice_cols[OF assms(1,3), of 1 j "w + 1"] assms(4) by simp
  show "concat (slice_rows 0 h b) ! (i * w + j) = b ! i ! j"
    unfolding concat_nth_shape[OF s3 assms(3,4)]
    using nth_slice_rows[OF assms(2), of 0 i h] assms(3) by simp
  show "concat (slice_rows 1 (h + 1) b) ! (i * w + j) = b ! (i + 1) ! j"
    unfolding concat_nth_shape[OF s4 assms(3,4)]
    using nth_slice_rows[OF assms(2), of 1 i "h + 1"] assms(3) by simp
qed




lemma drop_Cons_replicate: "drop n (x # replicate n x) = [x]"
proof -
  have "drop n (replicate (Suc n) x) = replicate (Suc n - n) x"
    by (rule drop_replicate)
  then show ?thesis by simp
qed

lemma face_tx_row:
  assumes "has_shape (ny grid) (nx grid) k" "1 \<le> nx grid" "i < ny grid"
  shows "face_tx grid k ! i =
           0 # map (\<lambda>j. (2 * dy grid / dx grid) / (1 / k ! i ! j + 1 / k ! i ! Suc j)) [0..<nx grid - 1] @ [0]"
proof -
  let ?w = "nx grid"
  have len: "length k = ny grid" "length (k ! i) = ?w"
    using assms by (simp_all add: has_shape_def list_all_length)
  have mid: "map2 (+) (take (?w - 1) (map (\<lambda>x. 1 / x) (k ! i))) (take (?w - 1) (drop 1 (map (\<lambda>x. 1 / x) (k ! i))))
        = map (\<lambda>j. 1 / k ! i ! j + 1 / k ! i ! Suc j) [0..<?w - 1]"
    using len by (intro nth_equalityI) (simp_all add: nth_zip)
  have "face_tx grid k ! i =
          take 1 (replicate (?w + 1) 0) @
          map (\<lambda>x. (2 * dy grid / dx grid) / x)
            (map2 (+) (take (?w - 1) (map (\<lambda>x. 1 / x) (k ! i))) (take (?w - 1) (drop 1 (map (\<lambda>x. 1 / x) (k ! i))))) @
          drop ?w (replicate (?w + 1) 0)"
    using assms len
    by (simp add: face_tx_def set_cols_def zeros2_def rdiv2_def add2_def slice_cols_def nth_zip)
  also have "\<dots> = 0 # map (\<lambda>j. (2 * dy grid / dx grid) / (1 / k ! i ! j + 1 / k ! i ! Suc j)) [0..<?w - 1] @ [0]"
    unfolding mid by (simp add: comp_def drop_Cons_replicate)
  finally show ?thesis .
qed

lemma shape_face_tx:
  assumes "has_shape (ny grid) (nx grid) k" "1 \<le> nx grid"
  shows "has_shape (ny grid) (nx grid + 1) (face_tx grid k)"
proof (rule has_shapeI)
  show "length (face_tx grid k) = ny grid"
    using assms by (simp add: face_tx_def set_cols_def zeros2_def rdiv2_def add2_def slice_cols_def has_shape_def)
next
  fix i assume "i < ny grid"
  with assms show "length (face_tx grid k ! i) = nx grid + 1"
    by (simp add: face_tx_row)
qed

lemma face_tx_nth:
  assumes "has_shape (ny grid) (nx grid) k" "1 \<le> nx grid" "i < ny grid" "j \<le> nx grid"
  shows "face_tx grid k ! i ! j =
           (if 1 \<le> j \<and> j < nx grid
            then (2 * dy grid / dx grid) / (1 / k ! i ! (j - 1) + 1 / k ! i ! j) else 0)"
proof (cases "j = 0")
  case True
  with assms show ?thesis by (simp add: face_tx_row)
next
  case False
  then obtain j' where j: "j = Suc j'" by (cases j) auto
  with assms show ?thesis
    by (auto simp: face_tx_row nth_append)
qed

lemma face_ty_rows:
  assumes "has_shape (ny grid) (nx grid) k" "1 \<le> ny grid"
  shows "face_ty grid k =
           replicate (nx grid) 0 #
           map (\<lambda>i. map (\<lambda>j. (2 * dx grid / dy grid) / (1 / k ! i ! j + 1 / k ! Suc i ! j)) [0..<nx grid]) [0..<ny grid - 1]
           @ [replicate (nx grid) 0]"
proof -
  let ?h = "ny grid" and ?w = "nx grid"
  have len: "length k = ?h" "\<And>i. i < ?h \<Longrightarrow> length (k ! i) = ?w"
    using assms by (simp_all add: has_shape_def list_all_length)
  have mid: "rdiv2 (2 * dx grid / dy grid)
          (add2 (slice_rows 0 (?h - 1) (rdiv2 1 k)) (slice_rows 1 ?h (rdiv2 1 k)))
        = map (\<lambda>i. map (\<lambda>j. (2 * dx grid / dy grid) / (1 / k ! i ! j + 1 / k ! Suc i ! j)) [0..<?w]) [0..<?h - 1]"
  proof (rule nth_equalityI)
    show "length (rdiv2 (2 * dx grid / dy grid)
          (add2 (slice_rows 0 (?h - 1) (rdiv2 1 k)) (slice_rows 1 ?h (rdiv2 1 k)))) =
         length (map (\<lambda>i. map (\<lambda>j. (2 * dx grid / dy grid) / (1 / k ! i ! j + 1 / k ! Suc i ! j)) [0..<?w]) [0..<?h - 1])"
      using len by (simp add: rdiv2_def add2_def slice_rows_def)
  next
    fix i assume "i < length (rdiv2 (2 * dx grid / dy grid)
          (add2 (slice_rows 0 (?h - 1) (rdiv2 1 k)) (slice_rows 1 ?h (rdiv2 1 k))))"
    then have i: "i < ?h - 1"
      using len by (simp add: rdiv2_def add2_def slice_rows_def)
    then have li: "length (k ! i) = ?w" "length (k ! Suc i) = ?w"
      using len(2)[of i] len(2)[of "Suc i"] by simp_all
    have "map2 (+) (map (\<lambda>x. 1 / x) (k ! i)) (map (\<lambda>x. 1 / x) (k ! Suc i))
        = map (\<lambda>j. 1 / k ! i ! j + 1 / k ! Suc i ! j) [0..<?w]"
      using li by (intro nth_equalityI) (simp_all add: nth_zip)
    then show "rdiv2 (2 * dx grid / dy grid)
          (add2 (slice_rows 0 (?h - 1) (rdiv2 1 k)) (slice_rows 1 ?h (rdiv2 1 k))) ! i =
         map (\<lambda>i. map (\<lambda>j. (2 * dx grid / dy grid) / (1 / k ! i ! j + 1 / k ! Suc i ! j)) [0..<?w]) [0..<?h - 1] ! i"
      using i len(1) by (simp add: rdiv2_def add2_def slice_rows_def nth_zip comp_def)
  qed
  show ?thesis
    unfolding face_ty_def mid using assms(2)
    by (simp add: set_rows_def zeros2_def drop_Cons_replicate)
qed

lemma shape_face_ty:
  assumes "has_shape (ny grid) (nx grid) k" "1 \<le> ny grid"
  shows "has_shape (ny grid + 1) (nx grid) (face_ty grid k)"
  using assms(2) by (auto simp: face_ty_rows[OF assms] has_shape_def list_all_iff)

lemma face_ty_nth:
  assumes "has_shape (ny grid) (nx grid) k" "1 \<le> ny grid" "i \<le> ny grid" "j < nx grid"
  shows "face_ty grid k ! i ! j =
           (if 1 \<le> i \<and> i < ny grid
            then (2 * dx grid / dy grid) / (1 / k ! (i - 1) ! j + 1 / k ! i ! j) else 0)"
proof (cases "i = 0")
  case True
  with assms show ?thesis by (simp add: face_ty_rows)
next
  case False
  then obtain i' where i: "i = Suc i'" by (cases i) auto
  with assms show ?thesis
    by (auto simp: face_ty_rows nth_append)
qed

lemma flat_lengths:
  assumes "has_shape (ny grid) (nx grid) k" "1 \<le> nx grid" "1 \<le> ny grid"
  shows "length (flat_x1 grid k) = ny grid * nx grid"
    and "length (flat_x2 grid k) = ny grid * nx grid"
    and "length (flat_y1 grid k) = ny grid * nx grid"
    and "length (flat_y2 grid k) = ny grid * nx grid"
  unfolding flat_x1_def flat_x2_def flat_y1_def flat_y2_def
  by (rule flatten_lengths[OF shape_face_tx[OF assms(1,2)] shape_face_ty[OF assms(1,3)]])+

lemma flat_nth:
  assumes "has_shape (ny grid) (nx grid) k" "1 \<le> nx grid" "1 \<le> ny grid"
    and "i < ny grid" "j < nx grid"
  shows "flat_x1 grid k ! (i * nx grid + j) = face_tx grid k ! i ! j"
    and "flat_x2 grid k ! (i * nx grid + j) = face_tx grid k ! i ! (j + 1)"
    and "flat_y1 grid k ! (i * nx grid + j) = face_ty grid k ! i ! j"
    and "flat_y2 grid k ! (i * nx grid + j) = face_ty grid k ! (i + 1) ! j"
  unfolding flat_x1_def flat_x2_def flat_y1_def flat_y2_def
  by (rule flatten_nth[OF shape_face_tx[OF assms(1,2)] shape_face_ty[OF assms(1,3)] assms(4,5)])+

lemma map_of_dia_cells:
  "map_of (concat (map (\<lambda>j. case g j of None \<Rightarrow> [] | Some x \<Rightarrow> if x = (0::real) then [] else [(j, x)]) [0..<n])) j
     = (if j < n then (case g j of None \<Rightarrow> None | Some x \<Rightarrow> if x = 0 then None else Some x) else None)"
proof (induction n)
  case 0
  then show ?case by simp
next
  case (Suc n)
  show ?case
  proof (cases "j = n")
    case True
    with Suc show ?thesis by (auto simp: map_add_def split: option.splits)
  next
    case False
    then have "map_of (case g n of None \<Rightarrow> [] | Some x \<Rightarrow> if x = 0 then [] else [(n, x)]) j = None"
      by (auto split: option.splits)
    with Suc False show ?thesis by (auto simp: map_add_def split: option.splits)
  qed
qed

lemma entry_spdiags:
  assumes "spdiags data diags m n = Inr mat" "i < m" "j < n"
  shows "entry mat i j = (case dia_lookup data diags i j of None \<Rightarrow> 0 | Some x \<Rightarrow> x)"
proof -
  from assms(1) have "rowdata mat = map (dia_row data diags n) [0..<m]"
    by (auto simp: spdiags_def split: if_splits)
  with assms(2) have "rowdata mat ! i = dia_row data diags n i" by simp
  then show ?thesis
    using assms(3) by (simp add: entry_def dia_row_def map_of_dia_cells split: option.splits)
qed

lemma shape_spdiags:
  assumes "spdiags data diags m n = Inr mat"
  shows "nrows mat = m" "ncols mat = n" "length (rowdata mat) = m"
  using assms by (auto simp: spdiags_def split: if_splits)

lemma entry_five_diagonals:
  assumes "spdiags [d0, d1, d2, d3, d4] [- int w, - 1, 0, 1, int w] n n = Inr mat"
    and "2 \<le> w" "i < n" "j < n"
    and "length d0 = n" "length d1 = n" "length d2 = n" "length d3 = n" "length d4 = n"
  shows "entry mat i j =
           (if j + w = i then d0 ! j else if j + 1 = i then d1 ! j else if j = i then d2 ! j
            else if j = i + 1 then d3 ! j else if j = i + w then d4 ! j else 0)"
proof -
  have "dia_lookup [d0, d1, d2, d3, d4] [- int w, - 1, 0, 1, int w] i j =
          (if j + w = i then Some (d0 ! j) else if j + 1 = i then Some (d1 ! j)
           else if j = i then Some (d2 ! j) else if j = i + 1 then Some (d3 ! j)
           else if j = i + w then Some (d4 ! j) else None)"
    using assms(2,4-) by (auto simp: dia_lookup_def)
  then show ?thesis
    using entry_spdiags[OF assms(1,3,4)] by simp
qed

lemma transmi_unfold:
  assumes "ncell grid = ny grid * nx grid" "dx grid \<noteq> 0" "dy grid \<noteq> 0"
    and "1 \<le> nx grid" "1 \<le> ny grid" "has_shape (ny grid) (nx grid) k"
  shows "transmi grid k =
           on_ok (spdiags (transmi_data grid k) [- int (nx grid), - 1, 0, 1, int (nx grid)]
                    (ncell grid) (ncell grid))
                 (\<lambda>mat. Inr (mat, face_tx grid k, face_ty grid k))"
proof -
  note len = flat_lengths[OF assms(6,4,5)]
  have r: "reshape1 (ncell grid) (flat_x1 grid k) = Inr (flat_x1 grid k)"
    "reshape1 (ncell grid) (flat_x2 grid k) = Inr (flat_x2 grid k)"
    "reshape1 (ncell grid) (flat_y1 grid k) = Inr (flat_y1 grid k)"
    "reshape1 (ncell grid) (flat_y2 grid k) = Inr (flat_y2 grid k)"
    using len assms(1) by (simp_all add: reshape1_def)
  have "transmi grid k =
      on_ok (reshape1 (ncell grid) (flat_x1 grid k)) (\<lambda>x1.
      on_ok (reshape1 (ncell grid) (flat_x2 grid k)) (\<lambda>x2.
      on_ok (reshape1 (ncell grid) (flat_y1 grid k)) (\<lambda>y1.
      on_ok (reshape1 (ncell grid) (flat_y2 grid k)) (\<lambda>y2.
        on_ok (spdiags [neg1 y2, neg1 x2, add1 (add1 (add1 x1 x2) y1) y2, neg1 x1, neg1 y1]
                 [- int (nx grid), - 1, 0, 1, int (nx grid)] (ncell grid) (ncell grid))
              (\<lambda>mat. Inr (mat, face_tx grid k, face_ty grid k))))))"
    using assms(2,3)
    by (simp add: transmi_def Let_def flat_x1_def flat_x2_def flat_y1_def flat_y2_def
          face_tx_def face_ty_def)
  then show ?thesis
    unfolding r by (simp add: on_ok_def transmi_data_def)
qed

lemma neg1_nth: "c < length a \<Longrightarrow> neg1 a ! c = - (a ! c)"
  by (simp add: neg1_def)

lemma add1_nth: "c < length a \<Longrightarrow> c < length b \<Longrightarrow> add1 a b ! c = a ! c + b ! c"
  by (simp add: add1_def)


lemma length_neg1: "length (neg1 a) = length a"
  by (simp add: neg1_def)

lemma length_add1: "length (add1 a b) = min (length a) (length b)"
  by (simp add: add1_def)


lemma transmi_entries:
  assumes "ncell grid = ny grid * nx grid" "dx grid \<noteq> 0" "dy grid \<noteq> 0"
    and "2 \<le> nx grid" "1 \<le> ny grid" "has_shape (ny grid) (nx grid) k"
  shows "\<exists>mat. transmi grid k = Inr (mat, face_tx grid k, face_ty grid k)
           \<and> nrows mat = ncell grid \<and> ncols mat = ncell grid
           \<and> (\<forall>r<ncell grid. \<forall>c<ncell grid. entry mat r c =
                 (if c + nx grid = r then - (flat_y2 grid k ! c)
                  else if c + 1 = r then - (flat_x2 grid k ! c)
                  else if c = r then flat_x1 grid k ! c + flat_x2 grid k ! c
                                     + flat_y1 grid k ! c + flat_y2 grid k ! c
                  else if c = r + 1 then - (flat_x1 grid k ! c)
                  else if c = r + nx grid then - (flat_y1 grid k ! c)
                  else 0))"
proof -
  let ?n = "ncell grid" and ?w = "nx grid"
  have w1: "1 \<le> ?w" using assms(4) by simp
  note len = flat_lengths[OF assms(6) w1 assms(5), folded assms(1)]
  have "distinct [- int ?w, - 1, 0, 1, int ?w]"
    using assms(4) by simp
  then obtain mat where
    sp: "spdiags (transmi_data grid k) [- int ?w, - 1, 0, 1, int ?w] ?n ?n = Inr mat"
    by (simp add: spdiags_def)
  have res: "transmi grid k = Inr (mat, face_tx grid k, face_ty grid k)"
    using transmi_unfold[OF assms(1-3) w1 assms(5,6)] sp by (simp add: on_ok_def)
  have "entry mat r c =
          (if c + ?w = r then - (flat_y2 grid k ! c)
           else if c + 1 = r then - (flat_x2 grid k ! c)
           else if c = r then flat_x1 grid k ! c + flat_x2 grid k ! c
                              + flat_y1 grid k ! c + flat_y2 grid k ! c
           else if c = r + 1 then - (flat_x1 grid k ! c)
           else if c = r + ?w then - (flat_y1 grid k ! c)
           else 0)" if "r < ?n" "c < ?n" for r c
    using entry_five_diagonals[OF sp[unfolded transmi_data_def] assms(4) that] len that
    by (simp add: neg1_nth add1_nth length_neg1 length_add1)
  with res shape_spdiags[OF sp] show ?thesis by blast
qed

lemma cell_of_index:
  assumes "(m::nat) < h * w"
  obtains i j where "i < h" "j < w" "m = i * w + j"
proof -
  from assms have w: "0 < w" by (cases w) auto
  have "m div w < h" using assms w by (simp add: less_mult_imp_div_less)
  moreover have "m mod w < w" using w by simp
  moreover have "m = (m div w) * w + m mod w" by simp
  ultimately show ?thesis using that by blast
qed

lemma faces_east:
  assumes "has_shape (ny grid) (nx grid) k" "1 \<le> nx grid" "1 \<le> ny grid"
    and "m < ny grid * nx grid"
  shows "(if m + 1 < ny grid * nx grid then flat_x1 grid k ! (m + 1) else 0) = flat_x2 grid k ! m"
proof -
  let ?w = "nx grid" and ?h = "ny grid"
  from assms(4) obtain i j where ij: "i < ?h" "j < ?w" "m = i * ?w + j"
    by (rule cell_of_index)
  note sh = assms(1-3)
  have x2: "flat_x2 grid k ! m = face_tx grid k ! i ! (j + 1)"
    unfolding ij(3) by (rule flat_nth(2)[OF sh ij(1,2)])
  show ?thesis
  proof (cases "j + 1 < ?w")
    case True
    then have "m + 1 < ?h * ?w"
    proof -
      have "i * ?w + ?w \<le> ?h * ?w"
        using ij(1) by (metis Suc_leI mult_Suc mult_le_mono1 add.commute)
      with True ij(3) show ?thesis by simp
    qed
    moreover have "flat_x1 grid k ! (m + 1) = face_tx grid k ! i ! (j + 1)"
      using flat_nth(1)[OF sh ij(1) True] ij(3) by (simp add: add.assoc)
    ultimately show ?thesis using x2 by simp
  next
    case False
    with ij(2) have jw: "j + 1 = ?w" by simp
    have z: "flat_x2 grid k ! m = 0"
      using x2 jw face_tx_nth[OF sh(1,2) ij(1), of ?w] by simp
    show ?thesis
    proof (cases "m + 1 < ?h * ?w")
      case True
      have m1: "m + 1 = (i + 1) * ?w + 0" using ij(3) jw by simp
      with True have "(i + 1) * ?w < ?h * ?w" by simp
      then have i1: "i + 1 < ?h" by (simp only: mult_less_cancel2)
      have w0: "0 < ?w" using assms(2) by simp
      have "flat_x1 grid k ! (m + 1) = face_tx grid k ! (i + 1) ! 0"
        unfolding m1 by (rule flat_nth(1)[OF sh i1 w0])
      also have "\<dots> = 0"
        using face_tx_nth[OF sh(1,2) i1, of 0] by simp
      finally show ?thesis using True z by simp
    next
      case False
      with z show ?thesis by simp
    qed
  qed
qed

lemma faces_north:
  assumes "has_shape (ny grid) (nx grid) k" "1 \<le> nx grid" "1 \<le> ny grid"
    and "m < ny grid * nx grid"
  shows "(if m + nx grid < ny grid * nx grid then flat_y1 grid k ! (m + nx grid) else 0)
           = flat_y2 grid k ! m"
proof -
  let ?w = "nx grid" and ?h = "ny grid"
  from assms(4) obtain i j where ij: "i < ?h" "j < ?w" "m = i * ?w + j"
    by (rule cell_of_index)
  note sh = assms(1-3)
  have y2: "flat_y2 grid k ! m = face_ty grid k ! (i + 1) ! j"
    unfolding ij(3) by (rule flat_nth(4)[OF sh ij(1,2)])
  have mw: "m + ?w = (i + 1) * ?w + j" using ij(3) by simp
  show ?thesis
  proof (cases "i + 1 < ?h")
    case True
    have "(i + 1) * ?w + ?w \<le> ?h * ?w"
      using True by (metis Suc_leI mult_Suc mult_le_mono1 add.commute)
    with ij(2) mw have "m + ?w < ?h * ?w" by simp
    moreover have "flat_y1 grid k ! (m + ?w) = face_ty grid k ! (i + 1) ! j"
      unfolding mw by (rule flat_nth(3)[OF sh True ij(2)])
    ultimately show ?thesis using y2 by simp
  next
    case False
    with ij(1) have ih: "i + 1 = ?h" by simp
    then have "?h * ?w \<le> m + ?w" using mw by simp
    moreover have "flat_y2 grid k ! m = 0"
      using y2 ih face_ty_nth[OF sh(1,3) _ ij(2), of ?h] by simp
    ultimately show ?thesis by simp
  qed
qed

lemma faces_west:
  assumes "has_shape (ny grid) (nx grid) k" "1 \<le> nx grid" "1 \<le> ny grid"
    and "m < ny grid * nx grid"
  shows "(if 1 \<le> m then flat_x2 grid k ! (m - 1) else 0) = flat_x1 grid k ! m"
proof (cases m)
  case 0
  have "flat_x1 grid k ! (0 * nx grid + 0) = face_tx grid k ! 0 ! 0"
    using assms by (intro flat_nth(1)) simp_all
  also have "\<dots> = 0"
    using face_tx_nth[OF assms(1,2), of 0 0] assms(3) by simp
  finally show ?thesis using 0 by simp
next
  case (Suc m')
  with assms(4) have "m' < ny grid * nx grid" by simp
  from faces_east[OF assms(1-3) this] Suc assms(4) show ?thesis by simp
qed

lemma faces_south:
  assumes "has_shape (ny grid) (nx grid) k" "1 \<le> nx grid" "1 \<le> ny grid"
    and "m < ny grid * nx grid"
  shows "(if nx grid \<le> m then flat_y2 grid k ! (m - nx grid) else 0) = flat_y1 grid k ! m"
proof (cases "nx grid \<le> m")
  case True
  with assms(4) have "m - nx grid < ny grid * nx grid" by simp
  from faces_north[OF assms(1-3) this] True assms(4) show ?thesis by simp
next
  case False
  then have m: "m < nx grid" by simp
  have "flat_y1 grid k ! (0 * nx grid + m) = face_ty grid k ! 0 ! m"
    using assms m by (intro flat_nth(3)) simp_all
  also have "\<dots> = 0"
    using face_ty_nth[OF assms(1,3) _ m, of 0] by simp
  finally show ?thesis using False by simp
qed

lemma Grid_init_fields:
  assumes "Grid_init w h lx0 ly0 = Inr grid"
  shows "nx grid = w" "ny grid = h" "ncell grid = w * h"
    "dx grid = lx0 / real w" "dy grid = ly0 / real h" "1 \<le> w" "1 \<le> h"
  using assms by (auto simp: Grid_init_def split: if_splits)

lemma positive_nth:
  "list_all (list_all (\<lambda>x. 0 < (x::real))) k \<Longrightarrow> has_shape h w k \<Longrightarrow> i < h \<Longrightarrow> j < w \<Longrightarrow> 0 < k ! i ! j"
  by (simp add: list_all_length has_shape_def)

lemma face_tx_nonneg:
  assumes "has_shape (ny grid) (nx grid) k" "1 \<le> nx grid" "i < ny grid" "j \<le> nx grid"
    and "0 < dx grid" "0 < dy grid" "list_all (list_all (\<lambda>x. 0 < x)) k"
  shows "0 \<le> face_tx grid k ! i ! j"
proof (cases "1 \<le> j \<and> j < nx grid")
  case True
  then have "0 < k ! i ! (j - 1)" "0 < k ! i ! j"
    using positive_nth[OF assms(7,1,3), of "j - 1"] positive_nth[OF assms(7,1,3), of j] by auto
  then have "0 < 1 / k ! i ! (j - 1) + 1 / k ! i ! j"
    by (simp add: add_pos_pos)
  moreover have "0 < 2 * dy grid / dx grid"
    using assms(5,6) by simp
  ultimately have "0 < (2 * dy grid / dx grid) / (1 / k ! i ! (j - 1) + 1 / k ! i ! j)"
    by (rule divide_pos_pos[rotated])
  with True show ?thesis
    using face_tx_nth[OF assms(1-4)] by simp
next
  case False
  then have "face_tx grid k ! i ! j = 0"
    using face_tx_nth[OF assms(1-4)] by (simp only: if_False)
  then show ?thesis by simp
qed

lemma face_ty_nonneg:
  assumes "has_shape (ny grid) (nx grid) k" "1 \<le> ny grid" "i \<le> ny grid" "j < nx grid"
    and "0 < dx grid" "0 < dy grid" "list_all (list_all (\<lambda>x. 0 < x)) k"
  shows "0 \<le> face_ty grid k ! i ! j"
proof (cases "1 \<le> i \<and> i < ny grid")
  case True
  then have "0 < k ! (i - 1) ! j" "0 < k ! i ! j"
    using positive_nth[OF assms(7,1) _ assms(4), of "i - 1"] positive_nth[OF assms(7,1) _ assms(4), of i]
    by auto
  then have "0 < 1 / k ! (i - 1) ! j + 1 / k ! i ! j"
    by (simp add: add_pos_pos)
  moreover have "0 < 2 * dx grid / dy grid"
    using assms(5,6) by simp
  ultimately have "0 < (2 * dx grid / dy grid) / (1 / k ! (i - 1) ! j + 1 / k ! i ! j)"
    by (rule divide_pos_pos[rotated])
  with True show ?thesis
    using face_ty_nth[OF assms(1-4)] by simp
next
  case False
  then have "face_ty grid k ! i ! j = 0"
    using face_ty_nth[OF assms(1-4)] by (simp only: if_False)
  then show ?thesis by simp
qed

lemma flat_nonneg:
  assumes "has_shape (ny grid) (nx grid) k" "1 \<le> nx grid" "1 \<le> ny grid"
    and "0 < dx grid" "0 < dy grid" "list_all (list_all (\<lambda>x. 0 < x)) k"
    and "m < ny grid * nx grid"
  shows "0 \<le> flat_x1 grid k ! m" "0 \<le> flat_x2 grid k ! m"
    "0 \<le> flat_y1 grid k ! m" "0 \<le> flat_y2 grid k ! m"
proof -
  from assms(7) obtain i j where ij: "i < ny grid" "j < nx grid" "m = i * nx grid + j"
    by (rule cell_of_index)
  note f = flat_nth[OF assms(1-3) ij(1,2), folded ij(3)]
  show "0 \<le> flat_x1 grid k ! m"
    unfolding f using face_tx_nonneg[OF assms(1,2) ij(1) _ assms(4-6), of j] ij(2) by simp
  show "0 \<le> flat_x2 grid k ! m"
    unfolding f using face_tx_nonneg[OF assms(1,2) ij(1) _ assms(4-6), of "j + 1"] ij(2) by simp
  show "0 \<le> flat_y1 grid k ! m"
    unfolding f using face_ty_nonneg[OF assms(1,3) _ ij(2) assms(4-6), of i] ij(1) by simp
  show "0 \<le> flat_y2 grid k ! m"
    unfolding f using face_ty_nonneg[OF assms(1,3) _ ij(2) assms(4-6), of "i + 1"] ij(1) by simp
qed

lemma sum_delta_down:
  assumes "(m::nat) < n"
  shows "(\<Sum>c = 0..<n. if c + d = m then f c else (0::real)) = (if d \<le> m then f (m - d) else 0)"
proof (cases "d \<le> m")
  case True
  have "(\<Sum>c = 0..<n. if c + d = m then f c else 0) = (\<Sum>c = 0..<n. if c = m - d then f c else 0)"
    using True by (intro sum.cong) auto
  also have "\<dots> = f (m - d)"
    using assms by (simp add: less_imp_diff_less)
  finally show ?thesis using True by simp
next
  case False
  then have "(\<Sum>c = 0..<n. if c + d = m then f c else 0) = (\<Sum>c = 0..<n. 0)"
    by (intro sum.cong) auto
  with False show ?thesis by simp
qed

lemma sum_delta_up:
  "(\<Sum>c = 0..<n. if c = (m::nat) + d then f c else (0::real)) = (if m + d < n then f (m + d) else 0)"
  by simp

lemma five_point_sum:
  assumes "2 \<le> (w::nat)" "m < n"
    and "\<And>c. c < n \<Longrightarrow> e c =
             (if c + w = m then A c else if c + 1 = m then B c
              else if c = m then D c
              else if c = m + 1 then E c else if c = m + w then F c else (0::real))"
  shows "(\<Sum>c = 0..<n. e c) =
           (if w \<le> m then A (m - w) else 0) + (if 1 \<le> m then B (m - 1) else 0)
           + D m
           + (if m + 1 < n then E (m + 1) else 0) + (if m + w < n then F (m + w) else 0)"
proof -
  have "(\<Sum>c = 0..<n. e c) =
        (\<Sum>c = 0..<n. (if c + w = m then A c else 0) + (if c + 1 = m then B c else 0)
           + (if c = m then D c else 0)
           + (if c = m + 1 then E c else 0) + (if c = m + w then F c else 0))"
    using assms(1,3) by (intro sum.cong refl) auto
  also have "\<dots> =
        (\<Sum>c = 0..<n. if c + w = m then A c else 0) + (\<Sum>c = 0..<n. if c + 1 = m then B c else 0)
        + (\<Sum>c = 0..<n. if c = m then D c else 0)
        + (\<Sum>c = 0..<n. if c = m + 1 then E c else 0) + (\<Sum>c = 0..<n. if c = m + w then F c else 0)"
    by (simp only: sum.distrib)
  also have "(\<Sum>c = 0..<n. if c + w = m then A c else 0) = (if w \<le> m then A (m - w) else 0)"
    using assms(2) by (rule sum_delta_down)
  also have "(\<Sum>c = 0..<n. if c + 1 = m then B c else 0) = (if 1 \<le> m then B (m - 1) else 0)"
    using assms(2) by (rule sum_delta_down)
  also have "(\<Sum>c = 0..<n. if c = m then D c else 0) = D m"
    using assms(2) by simp
  also have "(\<Sum>c = 0..<n. if c = m + 1 then E c else 0) = (if m + 1 < n then E (m + 1) else 0)"
    by (rule sum_delta_up)
  also have "(\<Sum>c = 0..<n. if c = m + w then F c else 0) = (if m + w < n then F (m + w) else 0)"
    by (rule sum_delta_up)
  finally show ?thesis .
qed




lemma transmi_setting:
  assumes "Grid_init w h lx0 ly0 = Inr grid" "2 \<le> w" "0 < lx0" "0 < ly0" "has_shape h w k"
  shows "ncell grid = ny grid * nx grid" "dx grid \<noteq> 0" "dy grid \<noteq> 0"
    "2 \<le> nx grid" "1 \<le> ny grid" "has_shape (ny grid) (nx grid) k"
    "0 < dx grid" "0 < dy grid" "1 \<le> nx grid"
  using assms Grid_init_fields[OF assms(1)] by simp_all


text \<open>
  Claim C4, as amended. Under the conditions of C3 (at least two columns),
  \<^verbatim>\<open>transmi\<close> returns \<open>tx\<close> of shape \<open>(h, w + 1)\<close>, zero on the faces \<open>j = 0\<close>
  and \<open>j = w\<close> and the harmonic mean \<open>(2 dy/dx) / (1/k[i,j-1] + 1/k[i,j])\<close> on the
  faces between, \<open>ty\<close> likewise of shape \<open>(h + 1, w)\<close> with \<open>2 dx/dy\<close>, and a matrix
  whose row for the cell \<open>m = i w + j\<close> has the sum of the four face transmissibilities
  on the diagonal and the negated transmissibility of the shared face at the column of
  each neighbour that exists.
\<close>

theorem transmi_faces_and_entries:
  assumes "Grid_init w h lx0 ly0 = Inr grid" and "2 \<le> w" and "0 < lx0" and "0 < ly0"
    and "has_shape h w k" and "list_all (list_all (\<lambda>x. 0 < x)) k"
  shows "\<exists>mat tx ty. transmi grid k = Inr (mat, tx, ty)
           \<and> dx grid = lx0 / real w \<and> dy grid = ly0 / real h
           \<and> has_shape h (w + 1) tx \<and> has_shape (h + 1) w ty
           \<and> (\<forall>i<h. tx ! i ! 0 = 0 \<and> tx ! i ! w = 0
                 \<and> (\<forall>j. 1 \<le> j \<and> j \<le> w - 1 \<longrightarrow>
                       tx ! i ! j = (2 * dy grid / dx grid) / (1 / k ! i ! (j - 1) + 1 / k ! i ! j)))
           \<and> (\<forall>j<w. ty ! 0 ! j = 0 \<and> ty ! h ! j = 0
                 \<and> (\<forall>i. 1 \<le> i \<and> i \<le> h - 1 \<longrightarrow>
                       ty ! i ! j = (2 * dx grid / dy grid) / (1 / k ! (i - 1) ! j + 1 / k ! i ! j)))
           \<and> (\<forall>i<h. \<forall>j<w.
                 entry mat (i * w + j) (i * w + j)
                   = tx ! i ! j + tx ! i ! (j + 1) + ty ! i ! j + ty ! (i + 1) ! j
                 \<and> (1 \<le> j \<longrightarrow> entry mat (i * w + j) (i * w + j - 1) = - (tx ! i ! j))
                 \<and> (j + 1 < w \<longrightarrow> entry mat (i * w + j) (i * w + j + 1) = - (tx ! i ! (j + 1)))
                 \<and> (1 \<le> i \<longrightarrow> entry mat (i * w + j) (i * w + j - w) = - (ty ! i ! j))
                 \<and> (i + 1 < h \<longrightarrow> entry mat (i * w + j) (i * w + j + w) = - (ty ! (i + 1) ! j)))"
proof -
  note s = transmi_setting[OF assms(1-5)]
  note g = Grid_init_fields[OF assms(1)]
  let ?tx = "face_tx grid k" and ?ty = "face_ty grid k"
  from transmi_entries[OF s(1-6)] obtain mat where
    res: "transmi grid k = Inr (mat, ?tx, ?ty)"
    and en: "\<And>r c. r < ncell grid \<Longrightarrow> c < ncell grid \<Longrightarrow> entry mat r c =
                 (if c + nx grid = r then - (flat_y2 grid k ! c)
                  else if c + 1 = r then - (flat_x2 grid k ! c)
                  else if c = r then flat_x1 grid k ! c + flat_x2 grid k ! c
                                     + flat_y1 grid k ! c + flat_y2 grid k ! c
                  else if c = r + 1 then - (flat_x1 grid k ! c)
                  else if c = r + nx grid then - (flat_y1 grid k ! c)
                  else 0)"
    by blast
  have shx: "has_shape h (w + 1) ?tx"
    using shape_face_tx[OF s(6,9)] g by simp
  have shy: "has_shape (h + 1) w ?ty"
    using shape_face_ty[OF s(6,5)] g by simp
  have fx: "\<forall>i<h. ?tx ! i ! 0 = 0 \<and> ?tx ! i ! w = 0
                 \<and> (\<forall>j. 1 \<le> j \<and> j \<le> w - 1 \<longrightarrow>
                       ?tx ! i ! j = (2 * dy grid / dx grid) / (1 / k ! i ! (j - 1) + 1 / k ! i ! j))"
  proof (intro allI impI conjI)
    fix i assume i: "i < h"
    then have i': "i < ny grid" using g by simp
    show "?tx ! i ! 0 = 0" using face_tx_nth[OF s(6,9) i', of 0] by simp
    show "?tx ! i ! w = 0" using face_tx_nth[OF s(6,9) i', of w] g by simp
    fix j assume j: "1 \<le> j \<and> j \<le> w - 1"
    then have "j \<le> nx grid" "1 \<le> j \<and> j < nx grid" using g assms(2) by auto
    then show "?tx ! i ! j = (2 * dy grid / dx grid) / (1 / k ! i ! (j - 1) + 1 / k ! i ! j)"
      using face_tx_nth[OF s(6,9) i', of j] by simp
  qed
  have fy: "\<forall>j<w. ?ty ! 0 ! j = 0 \<and> ?ty ! h ! j = 0
                 \<and> (\<forall>i. 1 \<le> i \<and> i \<le> h - 1 \<longrightarrow>
                       ?ty ! i ! j = (2 * dx grid / dy grid) / (1 / k ! (i - 1) ! j + 1 / k ! i ! j))"
  proof (intro allI impI conjI)
    fix j assume j: "j < w"
    then have j': "j < nx grid" using g by simp
    show "?ty ! 0 ! j = 0" using face_ty_nth[OF s(6,5) _ j', of 0] by simp
    show "?ty ! h ! j = 0" using face_ty_nth[OF s(6,5) _ j', of h] g by simp
    fix i assume i: "1 \<le> i \<and> i \<le> h - 1"
    then have "i \<le> ny grid" "1 \<le> i \<and> i < ny grid" using g by auto
    then show "?ty ! i ! j = (2 * dx grid / dy grid) / (1 / k ! (i - 1) ! j + 1 / k ! i ! j)"
      using face_ty_nth[OF s(6,5) _ j', of i] by simp
  qed
  have cells: "\<forall>i<h. \<forall>j<w.
                 entry mat (i * w + j) (i * w + j)
                   = ?tx ! i ! j + ?tx ! i ! (j + 1) + ?ty ! i ! j + ?ty ! (i + 1) ! j
                 \<and> (1 \<le> j \<longrightarrow> entry mat (i * w + j) (i * w + j - 1) = - (?tx ! i ! j))
                 \<and> (j + 1 < w \<longrightarrow> entry mat (i * w + j) (i * w + j + 1) = - (?tx ! i ! (j + 1)))
                 \<and> (1 \<le> i \<longrightarrow> entry mat (i * w + j) (i * w + j - w) = - (?ty ! i ! j))
                 \<and> (i + 1 < h \<longrightarrow> entry mat (i * w + j) (i * w + j + w) = - (?ty ! (i + 1) ! j))"
  proof (intro allI impI)
    fix i j assume i: "i < h" and j: "j < w"
    have i': "i < ny grid" and j': "j < nx grid" using i j g by simp_all
    let ?m = "i * w + j"
    have "i * w + w \<le> h * w"
      using i by (metis Suc_leI mult_Suc mult_le_mono1 add.commute)
    with j have m: "?m < ncell grid" using g by (simp add: mult.commute)
    note f = flat_nth[OF s(6,9,5) i' j', unfolded g(1)]
    have diag: "entry mat ?m ?m = ?tx ! i ! j + ?tx ! i ! (j + 1) + ?ty ! i ! j + ?ty ! (i + 1) ! j"
      using en[OF m m] assms(2) g(1) f by simp
    have west: "entry mat ?m (?m - 1) = - (?tx ! i ! j)" if "1 \<le> j"
    proof -
      from that obtain j0 where j0: "j = j0 + 1" by (metis add.commute le_Suc_ex plus_1_eq_Suc)
      then have j0': "j0 < nx grid" using j' by simp
      have "?m - 1 = i * w + j0" using j0 by simp
      moreover have "flat_x2 grid k ! (i * w + j0) = ?tx ! i ! (j0 + 1)"
        using flat_nth(2)[OF s(6,9,5) i' j0'] g(1) by simp
      ultimately show ?thesis
        using en[of ?m "?m - 1"] m assms(2) g(1) j0 by simp
    qed
    have east: "entry mat ?m (?m + 1) = - (?tx ! i ! (j + 1))" if "j + 1 < w"
    proof -
      have j1: "j + 1 < nx grid" using that g by simp
      have "i * w + (j + 1) < ncell grid"
        using \<open>i * w + w \<le> h * w\<close> that g by (simp add: mult.commute)
      moreover have "flat_x1 grid k ! (i * w + (j + 1)) = ?tx ! i ! (j + 1)"
        using flat_nth(1)[OF s(6,9,5) i' j1] g(1) by simp
      ultimately show ?thesis
        using en[of ?m "?m + 1"] m assms(2) g(1) by (simp add: add.assoc)
    qed
    have south: "entry mat ?m (?m - w) = - (?ty ! i ! j)" if "1 \<le> i"
    proof -
      from that obtain i0 where i0: "i = i0 + 1" by (metis add.commute le_Suc_ex plus_1_eq_Suc)
      then have i0': "i0 < ny grid" using i' by simp
      have c: "?m - w = i0 * w + j" using i0 by simp
      have "flat_y2 grid k ! (i0 * w + j) = ?ty ! (i0 + 1) ! j"
        using flat_nth(4)[OF s(6,9,5) i0' j'] g(1) by simp
      moreover have "i0 * w + j + w = ?m" using i0 by simp
      ultimately show ?thesis
        using en[of ?m "i0 * w + j"] m g(1) i0 c by simp
    qed
    have north: "entry mat ?m (?m + w) = - (?ty ! (i + 1) ! j)" if "i + 1 < h"
    proof -
      have i1: "i + 1 < ny grid" using that g by simp
      have "(i + 1) * w + w \<le> h * w"
        using that by (metis Suc_leI mult_Suc mult_le_mono1 add.commute)
      with j have c: "(i + 1) * w + j < ncell grid" using g by (simp add: mult.commute)
      have e: "?m + w = (i + 1) * w + j" by simp
      have "flat_y1 grid k ! ((i + 1) * w + j) = ?ty ! (i + 1) ! j"
        using flat_nth(3)[OF s(6,9,5) i1 j'] g(1) by simp
      then show ?thesis
        unfolding e using en[OF m c] assms(2) g(1) by simp
    qed
    from diag west east south north
    show "entry mat ?m ?m = ?tx ! i ! j + ?tx ! i ! (j + 1) + ?ty ! i ! j + ?ty ! (i + 1) ! j
          \<and> (1 \<le> j \<longrightarrow> entry mat ?m (?m - 1) = - (?tx ! i ! j))
          \<and> (j + 1 < w \<longrightarrow> entry mat ?m (?m + 1) = - (?tx ! i ! (j + 1)))
          \<and> (1 \<le> i \<longrightarrow> entry mat ?m (?m - w) = - (?ty ! i ! j))
          \<and> (i + 1 < h \<longrightarrow> entry mat ?m (?m + w) = - (?ty ! (i + 1) ! j))"
      by blast
  qed
  from res g(4,5) shx shy fx fy cells show ?thesis by blast
qed

lemma five_point_symmetric:
  assumes "2 \<le> (w::nat)" "m < n" "c < n"
    and east: "\<And>a. a + 1 < n \<Longrightarrow> x1 ! (a + 1) = (x2 ! a :: real)"
    and north: "\<And>a. a + w < n \<Longrightarrow> y1 ! (a + w) = (y2 ! a :: real)"
  shows "(if c + w = m then - (y2 ! c) else if c + 1 = m then - (x2 ! c)
          else if c = m then d c
          else if c = m + 1 then - (x1 ! c) else if c = m + w then - (y1 ! c) else 0)
       = (if m + w = c then - (y2 ! m) else if m + 1 = c then - (x2 ! m)
          else if m = c then d m
          else if m = c + 1 then - (x1 ! m) else if m = c + w then - (y1 ! m) else 0)"
proof -
  consider "c + w = m" | "c + 1 = m" | "c = m" | "c = m + 1" | "c = m + w"
    | "c + w \<noteq> m" "c + 1 \<noteq> m" "c \<noteq> m" "c \<noteq> m + 1" "c \<noteq> m + w"
    by blast
  then show ?thesis
  proof cases
    case 1
    with assms(1,2) north[of c] show ?thesis by auto
  next
    case 2
    with assms(1,2) east[of c] show ?thesis by auto
  next
    case 3
    then show ?thesis by simp
  next
    case 4
    with assms(1,3) east[of m] show ?thesis by auto
  next
    case 5
    with assms(1,3) north[of m] show ?thesis by auto
  next
    case 6
    then show ?thesis by auto
  qed
qed

text \<open>
  Claim C10, as amended. Under the conditions of C3 (at least two columns, positive
  extents), the matrix that \<^verbatim>\<open>transmi\<close> returns is symmetric, its entries off the
  diagonal are at most zero and its diagonal entries are at least zero.
\<close>

theorem transmi_symmetric:
  assumes "Grid_init w h lx0 ly0 = Inr grid" and "2 \<le> w" and "0 < lx0" and "0 < ly0"
    and "has_shape h w k" and "list_all (list_all (\<lambda>x. 0 < x)) k"
  shows "\<exists>mat tx ty. transmi grid k = Inr (mat, tx, ty)
           \<and> nrows mat = w * h \<and> ncols mat = w * h
           \<and> (\<forall>m<w * h. \<forall>c<w * h.
                  entry mat m c = entry mat c m \<and> (c \<noteq> m \<longrightarrow> entry mat m c \<le> 0))
           \<and> (\<forall>m<w * h. 0 \<le> entry mat m m)"
proof -
  note s = transmi_setting[OF assms(1-5)]
  note g = Grid_init_fields[OF assms(1)]
  let ?n = "ncell grid"
  let ?E = "\<lambda>r c. (if c + nx grid = r then - (flat_y2 grid k ! c)
                  else if c + 1 = r then - (flat_x2 grid k ! c)
                  else if c = r then flat_x1 grid k ! c + flat_x2 grid k ! c
                                     + flat_y1 grid k ! c + flat_y2 grid k ! c
                  else if c = r + 1 then - (flat_x1 grid k ! c)
                  else if c = r + nx grid then - (flat_y1 grid k ! c)
                  else 0)"
  from transmi_entries[OF s(1-6)] obtain mat where
    res: "transmi grid k = Inr (mat, face_tx grid k, face_ty grid k)"
    and sh: "nrows mat = ?n" "ncols mat = ?n"
    and en: "\<And>r c. r < ?n \<Longrightarrow> c < ?n \<Longrightarrow> entry mat r c = ?E r c"
    by blast
  have east: "flat_x1 grid k ! (a + 1) = flat_x2 grid k ! a" if "a + 1 < ?n" for a
    using faces_east[OF s(6,9,5), of a] that s(1) by simp
  have north: "flat_y1 grid k ! (a + nx grid) = flat_y2 grid k ! a" if "a + nx grid < ?n" for a
    using faces_north[OF s(6,9,5), of a] that s(1) by simp
  have nonneg: "0 \<le> flat_x1 grid k ! a" "0 \<le> flat_x2 grid k ! a"
    "0 \<le> flat_y1 grid k ! a" "0 \<le> flat_y2 grid k ! a" if "a < ?n" for a
    using flat_nonneg[OF s(6,9,5,7,8) assms(6), of a] that s(1) by simp_all
  have sym: "entry mat m c = entry mat c m" if "m < ?n" "c < ?n" for m c
    unfolding en[OF that] en[OF that(2,1)]
    using s(4) that east north by (rule five_point_symmetric)
  have off: "entry mat m c \<le> 0" if "m < ?n" "c < ?n" "c \<noteq> m" for m c
    unfolding en[OF that(1,2)] using that(3) nonneg[OF that(2)] by auto
  have diag: "0 \<le> entry mat m m" if "m < ?n" for m
    unfolding en[OF that that] using s(4) nonneg[OF that] by simp
  from res sh sym off diag g(3) show ?thesis by auto
qed



theorem transmi_faces_and_entries_witness:
  "Grid_init 3 2 3 2
     = Inr \<lparr>nx = 3, ny = 2, lx = 3, ly = 2, ncell = 6, dx = 1, dy = 1, vol = 1\<rparr>
   \<and> has_shape 2 3 [[1, 1, 1], [1, 1, 1 :: real]]
   \<and> list_all (list_all (\<lambda>x. 0 < x)) [[1, 1, 1], [1, 1, 1 :: real]]
   \<and> (\<exists>mat tx ty.
         transmi \<lparr>nx = 3, ny = 2, lx = 3, ly = 2, ncell = 6, dx = 1, dy = 1, vol = 1\<rparr>
           [[1, 1, 1], [1, 1, 1]] = Inr (mat, tx, ty)
         \<and> tx ! 1 ! 0 = 0 \<and> tx ! 1 ! 1 = 1 \<and> tx ! 1 ! 2 = 1 \<and> tx ! 1 ! 3 = 0
         \<and> ty ! 0 ! 1 = 0 \<and> ty ! 1 ! 1 = 1 \<and> ty ! 2 ! 1 = 0
         \<and> entry mat 4 4 = 3 \<and> entry mat 4 3 = - 1 \<and> entry mat 4 5 = - 1 \<and> entry mat 4 1 = - 1)"
proof -
  let ?G = "\<lparr>nx = 3, ny = 2, lx = 3, ly = 2, ncell = 6, dx = 1, dy = 1, vol = 1\<rparr>"
  let ?K = "[[1, 1, 1], [1, 1, 1 :: real]]"
  have g: "Grid_init 3 2 3 2 = Inr ?G" by (simp add: Grid_init_def)
  have sh: "has_shape 2 3 ?K" by (simp add: has_shape_def)
  have pos: "list_all (list_all (\<lambda>x. 0 < x)) ?K" by simp
  from transmi_faces_and_entries[OF g _ _ _ sh pos] obtain mat tx ty where
    res: "transmi ?G ?K = Inr (mat, tx, ty)"
    and fx: "\<forall>i<2. tx ! i ! 0 = 0 \<and> tx ! i ! 3 = 0
                 \<and> (\<forall>j. 1 \<le> j \<and> j \<le> 3 - 1 \<longrightarrow>
                       tx ! i ! j = (2 * dy ?G / dx ?G) / (1 / ?K ! i ! (j - 1) + 1 / ?K ! i ! j))"
    and fy: "\<forall>j<3. ty ! 0 ! j = 0 \<and> ty ! 2 ! j = 0
                 \<and> (\<forall>i. 1 \<le> i \<and> i \<le> 2 - 1 \<longrightarrow>
                       ty ! i ! j = (2 * dx ?G / dy ?G) / (1 / ?K ! (i - 1) ! j + 1 / ?K ! i ! j))"
    and cells: "\<forall>i<2. \<forall>j<3.
                 entry mat (i * 3 + j) (i * 3 + j)
                   = tx ! i ! j + tx ! i ! (j + 1) + ty ! i ! j + ty ! (i + 1) ! j
                 \<and> (1 \<le> j \<longrightarrow> entry mat (i * 3 + j) (i * 3 + j - 1) = - (tx ! i ! j))
                 \<and> (j + 1 < 3 \<longrightarrow> entry mat (i * 3 + j) (i * 3 + j + 1) = - (tx ! i ! (j + 1)))
                 \<and> (1 \<le> i \<longrightarrow> entry mat (i * 3 + j) (i * 3 + j - 3) = - (ty ! i ! j))
                 \<and> (i + 1 < 2 \<longrightarrow> entry mat (i * 3 + j) (i * 3 + j + 3) = - (ty ! (i + 1) ! j))"
    by auto
  from fx[rule_format, of 1] have x0: "tx ! 1 ! 0 = 0" and x3: "tx ! 1 ! 3 = 0"
    and xj: "\<And>j. 1 \<le> j \<and> j \<le> 2 \<Longrightarrow>
               tx ! 1 ! j = (2 * dy ?G / dx ?G) / (1 / ?K ! 1 ! (j - 1) + 1 / ?K ! 1 ! j)"
    by simp_all
  from xj[of 1] xj[of 2] have x1: "tx ! 1 ! 1 = 1" and x2: "tx ! 1 ! 2 = 1" by simp_all
  from fy[rule_format, of 1] have y0: "ty ! 0 ! 1 = 0" and y2: "ty ! 2 ! 1 = 0"
    and yi: "\<And>i. 1 \<le> i \<and> i \<le> 1 \<Longrightarrow>
               ty ! i ! 1 = (2 * dx ?G / dy ?G) / (1 / ?K ! (i - 1) ! 1 + 1 / ?K ! i ! 1)"
    by simp_all
  from yi[of 1] have y1: "ty ! 1 ! 1 = 1" by simp
  from cells[rule_format, of 1 1] x1 x2 y1 y2
  have "entry mat 4 4 = 3" "entry mat 4 3 = - 1" "entry mat 4 5 = - 1" "entry mat 4 1 = - 1"
    by (simp_all add: eval_nat_numeral)
  with res x0 x1 x2 x3 y0 y1 y2 g sh pos show ?thesis by blast
qed

text \<open>
  The claim C4 as stated, for every grid, fails on the grid of one column and two rows:
  \<^verbatim>\<open>transmi\<close> raises ValueError and returns neither \<open>tx\<close>, \<open>ty\<close> nor a matrix.
\<close>

theorem transmi_nx1_entries_counterexample:
  "on_ok (Grid_init 1 2 1 1) (\<lambda>grid. transmi grid [[1], [1]]) = Inl ValueError"
  by (simp add: eval_defs step_defs eval_nat_numeral)

theorem transmi_symmetric_witness:
  "Grid_init 2 1 1 1
     = Inr \<lparr>nx = 2, ny = 1, lx = 1, ly = 1, ncell = 2, dx = 1 / 2, dy = 1, vol = 1 / 2\<rparr>
   \<and> has_shape 1 2 [[1, 3 :: real]]
   \<and> list_all (list_all (\<lambda>x. 0 < x)) [[1, 3 :: real]]
   \<and> (\<exists>mat tx ty.
         transmi \<lparr>nx = 2, ny = 1, lx = 1, ly = 1, ncell = 2, dx = 1 / 2, dy = 1, vol = 1 / 2\<rparr>
           [[1, 3]] = Inr (mat, tx, ty)
         \<and> entry mat 0 1 = entry mat 1 0 \<and> entry mat 0 1 \<le> 0 \<and> entry mat 1 0 \<le> 0
         \<and> 0 \<le> entry mat 0 0 \<and> 0 \<le> entry mat 1 1)"
proof -
  let ?G = "\<lparr>nx = 2, ny = 1, lx = 1, ly = 1, ncell = 2, dx = 1 / 2, dy = 1, vol = 1 / 2\<rparr>"
  let ?K = "[[1, 3 :: real]]"
  have g: "Grid_init 2 1 1 1 = Inr ?G" by (simp add: Grid_init_def)
  have sh: "has_shape 1 2 ?K" by (simp add: has_shape_def)
  have pos: "list_all (list_all (\<lambda>x. 0 < x)) ?K" by simp
  from transmi_symmetric[OF g _ _ _ sh pos] obtain mat tx ty where
    res: "transmi ?G ?K = Inr (mat, tx, ty)"
    and sym: "\<forall>m<2 * 1. \<forall>c<2 * 1. entry mat m c = entry mat c m \<and> (c \<noteq> m \<longrightarrow> entry mat m c \<le> 0)"
    and diag: "\<forall>m<2 * 1. 0 \<le> entry mat m m"
    by auto
  from sym[rule_format, of 0 1] sym[rule_format, of 1 0] diag[rule_format, of 0] diag[rule_format, of 1]
  have "entry mat 0 1 = entry mat 1 0 \<and> entry mat 0 1 \<le> 0 \<and> entry mat 1 0 \<le> 0
         \<and> 0 \<le> entry mat 0 0 \<and> 0 \<le> entry mat 1 1"
    by simp
  with res g sh pos show ?thesis by blast
qed

text \<open>
  The claim C10 as stated, for every grid, fails on the grid of one column and three
  rows: \<^verbatim>\<open>transmi\<close> raises ValueError and returns no matrix.
\<close>

theorem transmi_nx1_symmetry_counterexample:
  "on_ok (Grid_init 1 3 1 1) (\<lambda>grid. transmi grid [[1], [2], [1]]) = Inl ValueError"
  by (simp add: eval_defs step_defs eval_nat_numeral)

section \<open>The convection matrix\<close>




section \<open>The boundary imposer pins rows\<close>

text \<open>
  Zeroing a row and storing 1 on its diagonal leaves, once the zeros are eliminated, the
  single stored entry \<open>(i, 1)\<close>, however often it is done.
\<close>

lemma filter_zeroed_row:
  "filter (\<lambda>(c, y). y \<noteq> 0) (map (\<lambda>(c, y). (c, 0::real)) row) = []"
  by (induction row) auto

lemma filter_insort_zeroed:
  "filter (\<lambda>(c, y). y \<noteq> 0) (insort_key fst (i, 1) (map (\<lambda>(c, y). (c, 0::real)) row)) = [(i, 1)]"
  by (induction row) (auto simp: filter_zeroed_row)

lemma filter_overwrite_zeroed:
  "distinct (map fst row) \<Longrightarrow> i \<in> set (map fst row) \<Longrightarrow>
   filter (\<lambda>(c, y). y \<noteq> 0)
     (map (\<lambda>(c, y). if c = i then (c, 1) else (c, y)) (map (\<lambda>(c, y). (c, 0::real)) row)) = [(i, 1)]"
proof (induction row)
  case Nil
  then show ?case by simp
next
  case (Cons a row)
  obtain c y where a: "a = (c, y)" by (cases a)
  show ?case
  proof (cases "c = i")
    case True
    with Cons.prems a have "i \<notin> set (map fst row)" by auto
    then have "filter (\<lambda>(c, y). y \<noteq> 0)
        (map (\<lambda>(c, y). if c = i then (c, 1) else (c, y)) (map (\<lambda>(c, y). (c, 0::real)) row)) = []"
      by (induction row) auto
    with True a show ?thesis by simp
  next
    case False
    with Cons a show ?thesis by auto
  qed
qed

lemma filter_pinned_row:
  "distinct (map fst row) \<Longrightarrow>
   filter (\<lambda>(c, y). y \<noteq> 0) (row_store i 1 (map (\<lambda>(c, y). (c, 0)) row)) = [(i, 1)]"
  unfolding row_store_def
  using filter_insort_zeroed[of i row] filter_overwrite_zeroed[of row i]
  by (auto simp: comp_def case_prod_unfold)

lemma keys_insort: "set (map fst (insort_key fst x xs)) = insert (fst x) (set (map fst xs))"
  by (induction xs) auto

lemma distinct_keys_insort:
  "distinct (map fst xs) \<Longrightarrow> fst x \<notin> set (map fst xs) \<Longrightarrow> distinct (map fst (insort_key fst x xs))"
  by (induction xs) (auto simp: keys_insort simp del: set_map)

lemma keys_overwrite: "map fst (map (\<lambda>(c, y). if c = i then (c, x) else (c, y)) row) = map fst row"
  by (induction row) auto

lemma keys_zeroed: "map fst (map (\<lambda>(c, y). (c, x)) row) = map fst row"
  by (induction row) auto

lemma distinct_pinned_row:
  "distinct (map fst row) \<Longrightarrow> distinct (map fst (row_store i 1 (map (\<lambda>(c, y). (c, 0)) row)))"
  unfolding row_store_def
  by (simp add: keys_overwrite keys_zeroed distinct_keys_insort del: map_map)

lemma distinct_keys_filter: "distinct (map fst row) \<Longrightarrow> distinct (map fst (filter P row))"
  by (simp add: distinct_map_filter)

lemma map_of_filter_distinct:
  "distinct (map fst row) \<Longrightarrow>
   map_of (filter P row) j = (case map_of row j of None \<Rightarrow> None | Some x \<Rightarrow> if P (j, x) then Some x else None)"
proof (induction row)
  case Nil
  then show ?case by simp
next
  case (Cons a row)
  obtain c y where a: "a = (c, y)" by (cases a)
  from Cons.prems a have "map_of row c = None"
    by (simp add: map_of_eq_None_iff)
  then have "map_of (filter P row) c = None"
    by (metis (no_types, lifting) filter_is_subset image_mono map_of_eq_None_iff subsetD)
  with Cons a show ?case by (auto split: option.splits)
qed

lemma impose_pin_ok:
  assumes "canonical mat" "nrows mat = n" "ncols mat = n" "length q = n" "i < n"
  shows "impose_pin (mat, q) (i, x) =
           Inr (mat\<lparr>rowdata := (rowdata mat)[i := row_store i 1 (map (\<lambda>(c, y). (c, 0)) (rowdata mat ! i))]\<rparr>,
                q[i := x])"
  using assms
  by (simp add: impose_pin_def csr_row_set_nz_to_val_def csr_setitem_def setitem1_def
        on_ok_def canonical_def)

lemma canonical_pin:
  assumes "canonical mat" "i < nrows mat"
  shows "canonical (mat\<lparr>rowdata := (rowdata mat)[i := row_store i 1 (map (\<lambda>(c, y). (c, 0)) (rowdata mat ! i))]\<rparr>)"
proof -
  from assms have "distinct (map fst (rowdata mat ! i))"
    by (simp add: canonical_def list_all_length)
  then have "distinct (map fst (row_store i 1 (map (\<lambda>(c, y). (c, 0)) (rowdata mat ! i))))"
    by (rule distinct_pinned_row)
  with assms show ?thesis
    by (auto simp: canonical_def list_all_length nth_list_update)
qed

lemma impose_loop_ok:
  assumes "canonical mat" "nrows mat = n" "ncols mat = n" "length q = n"
    and "list_all (\<lambda>(i, x). i < n) pins"
  shows "\<exists>mat' q'. impose_loop (mat, q) pins = Inr (mat', q')
           \<and> canonical mat' \<and> nrows mat' = n \<and> ncols mat' = n \<and> length q' = n
           \<and> (\<forall>r<n. r \<notin> fst ` set pins \<longrightarrow> rowdata mat' ! r = rowdata mat ! r)
           \<and> (\<forall>r<n. r \<in> fst ` set pins \<longrightarrow>
                  filter (\<lambda>(c, y). y \<noteq> 0) (rowdata mat' ! r) = [(r, 1)])
           \<and> (\<forall>r<n. q' ! r = (case map_of (rev pins) r of None \<Rightarrow> q ! r | Some x \<Rightarrow> x))"
  using assms
proof (induction pins arbitrary: mat q)
  case Nil
  then show ?case by simp
next
  case (Cons pin rest)
  obtain i x where pin: "pin = (i, x)" by (cases pin)
  with Cons.prems have i: "i < n" and rest: "list_all (\<lambda>(i, x). i < n) rest" by auto
  define mat1 where
    "mat1 = mat\<lparr>rowdata := (rowdata mat)[i := row_store i 1 (map (\<lambda>(c, y). (c, 0)) (rowdata mat ! i))]\<rparr>"
  define q1 where "q1 = q[i := x]"
  have one: "impose_pin (mat, q) pin = Inr (mat1, q1)"
    unfolding pin mat1_def q1_def using Cons.prems(1-4) i by (rule impose_pin_ok)
  have c1: "canonical mat1"
    unfolding mat1_def using Cons.prems(1,2) i by (simp add: canonical_pin)
  have s1: "nrows mat1 = n" "ncols mat1 = n" "length q1 = n"
    using Cons.prems by (simp_all add: mat1_def q1_def)
  from Cons.IH[OF c1 s1 rest] obtain mat' q' where
    loop: "impose_loop (mat1, q1) rest = Inr (mat', q')"
    and wf: "canonical mat'" "nrows mat' = n" "ncols mat' = n" "length q' = n"
    and others: "\<forall>r<n. r \<notin> fst ` set rest \<longrightarrow> rowdata mat' ! r = rowdata mat1 ! r"
    and pinned: "\<forall>r<n. r \<in> fst ` set rest \<longrightarrow>
                  filter (\<lambda>(c, y). y \<noteq> 0) (rowdata mat' ! r) = [(r, 1)]"
    and rhs: "\<forall>r<n. q' ! r = (case map_of (rev rest) r of None \<Rightarrow> q1 ! r | Some x \<Rightarrow> x)"
    by blast
  have len: "length (rowdata mat) = n"
    using Cons.prems by (simp add: canonical_def)
  have di: "distinct (map fst (rowdata mat ! i))"
    using Cons.prems(1) len i by (simp add: canonical_def list_all_length)
  have row_i: "rowdata mat1 ! i = row_store i 1 (map (\<lambda>(c, y). (c, 0)) (rowdata mat ! i))"
    using len i by (simp add: mat1_def)
  have row_other: "\<And>r. r \<noteq> i \<Longrightarrow> rowdata mat1 ! r = rowdata mat ! r"
    by (simp add: mat1_def)
  have "impose_loop (mat, q) (pin # rest) = Inr (mat', q')"
    using one loop by (simp add: on_ok_def)
  moreover have "\<forall>r<n. r \<notin> fst ` set (pin # rest) \<longrightarrow> rowdata mat' ! r = rowdata mat ! r"
    using others row_other pin by auto
  moreover have "\<forall>r<n. r \<in> fst ` set (pin # rest) \<longrightarrow>
                  filter (\<lambda>(c, y). y \<noteq> 0) (rowdata mat' ! r) = [(r, 1)]"
  proof (intro allI impI)
    fix r assume r: "r < n" "r \<in> fst ` set (pin # rest)"
    show "filter (\<lambda>(c, y). y \<noteq> 0) (rowdata mat' ! r) = [(r, 1)]"
    proof (cases "r \<in> fst ` set rest")
      case True
      with pinned r show ?thesis by blast
    next
      case False
      with r pin have "r = i" by auto
      with False others r row_i have "rowdata mat' ! r = row_store i 1 (map (\<lambda>(c, y). (c, 0)) (rowdata mat ! i))"
        by simp
      with di \<open>r = i\<close> show ?thesis by (simp add: filter_pinned_row)
    qed
  qed
  moreover have "\<forall>r<n. q' ! r = (case map_of (rev (pin # rest)) r of None \<Rightarrow> q ! r | Some x \<Rightarrow> x)"
  proof (intro allI impI)
    fix r assume r: "r < n"
    have "q1 ! r = (if r = i then x else q ! r)"
      using r i Cons.prems(4) by (simp add: q1_def nth_list_update)
    with rhs r pin show "q' ! r = (case map_of (rev (pin # rest)) r of None \<Rightarrow> q ! r | Some x \<Rightarrow> x)"
      by (auto simp: map_of_append split: option.splits)
  qed
  ultimately show ?case using wf by blast
qed

lemma canonical_eliminate_zeros: "canonical mat \<Longrightarrow> canonical (eliminate_zeros mat)"
  by (simp add: canonical_def eliminate_zeros_def list_all_iff distinct_map_filter)

lemma impose_diriBC_rows:
  assumes "canonical mat" "nrows mat = n" "ncols mat = n" "length q = n"
    and "list_all (\<lambda>(i, x). i < n) pins"
  shows "\<exists>mat' q'. impose_diriBC mat q pins = Inr (mat', q')
           \<and> canonical mat' \<and> nrows mat' = n \<and> ncols mat' = n \<and> length q' = n
           \<and> (\<forall>r<n. rowdata mat' ! r =
                  (if r \<in> fst ` set pins then [(r, 1)]
                   else filter (\<lambda>(c, y). y \<noteq> 0) (rowdata mat ! r)))
           \<and> (\<forall>r<n. q' ! r = (case map_of (rev pins) r of None \<Rightarrow> q ! r | Some x \<Rightarrow> x))"
proof -
  from impose_loop_ok[OF assms] obtain mat1 q1 where
    loop: "impose_loop (mat, q) pins = Inr (mat1, q1)"
    and wf: "canonical mat1" "nrows mat1 = n" "ncols mat1 = n" "length q1 = n"
    and others: "\<forall>r<n. r \<notin> fst ` set pins \<longrightarrow> rowdata mat1 ! r = rowdata mat ! r"
    and pinned: "\<forall>r<n. r \<in> fst ` set pins \<longrightarrow>
                  filter (\<lambda>(c, y). y \<noteq> 0) (rowdata mat1 ! r) = [(r, 1)]"
    and rhs: "\<forall>r<n. q1 ! r = (case map_of (rev pins) r of None \<Rightarrow> q ! r | Some x \<Rightarrow> x)"
    by blast
  have len: "length (rowdata mat1) = n"
    using wf by (simp add: canonical_def)
  have "impose_diriBC mat q pins = Inr (eliminate_zeros mat1, q1)"
    using loop by (simp add: impose_diriBC_def on_ok_def)
  moreover have "canonical (eliminate_zeros mat1)"
    using wf(1) by (rule canonical_eliminate_zeros)
  moreover have "nrows (eliminate_zeros mat1) = n" "ncols (eliminate_zeros mat1) = n"
    using wf by (simp_all add: eliminate_zeros_def)
  moreover have "\<forall>r<n. rowdata (eliminate_zeros mat1) ! r =
                  (if r \<in> fst ` set pins then [(r, 1)]
                   else filter (\<lambda>(c, y). y \<noteq> 0) (rowdata mat ! r))"
    using others pinned len by (auto simp: eliminate_zeros_def)
  ultimately show ?thesis using wf(4) rhs by blast
qed

lemma map_of_rev_last:
  assumes "pins = pre @ (i, x) # post" "i \<notin> fst ` set post"
  shows "map_of (rev pins) i = Some x"
proof -
  have "map_of (rev post) i = None"
    using assms(2) by (simp add: map_of_eq_None_iff)
  then show ?thesis using assms(1) by (simp add: map_add_def)
qed

lemma map_of_rev_none: "i \<notin> fst ` set pins \<Longrightarrow> map_of (rev pins) i = None"
  by (simp add: map_of_eq_None_iff)

lemma entry_pinned_row: "rowdata mat ! i = [(i, 1)] \<Longrightarrow> entry mat i j = (if j = i then 1 else 0)"
  by (simp add: entry_def)

lemma entry_filtered_row:
  assumes "distinct (map fst row)" "rowdata mat ! i = filter (\<lambda>(c, y). y \<noteq> 0) row"
  shows "entry mat i j = (case map_of row j of None \<Rightarrow> 0 | Some x \<Rightarrow> x)"
  using assms by (simp add: entry_def map_of_filter_distinct split: option.splits)

text \<open>
  Claim C2. For a matrix of shape \<open>(n, n)\<close> in canonical format, a right-hand side of
  length \<open>n\<close> and a list of pins with cell indices below \<open>n\<close>,
  \<^verbatim>\<open>impose_diriBC\<close> returns, and afterwards: every pinned row has 1 on the diagonal
  and 0 in every other column; the right-hand side at a pinned cell is the value of the
  last pair of the list with that cell index; every row that is not pinned has the
  entries it had, and the right-hand side there is unchanged.
\<close>

theorem impose_diriBC_pins:
  assumes "canonical mat" "nrows mat = n" "ncols mat = n" "length q = n"
    and "list_all (\<lambda>(i, val). i < n) diriBC"
  shows "\<exists>mat' q'. impose_diriBC mat q diriBC = Inr (mat', q')
           \<and> nrows mat' = n \<and> ncols mat' = n \<and> length q' = n
           \<and> (\<forall>i<n. i \<in> fst ` set diriBC \<longrightarrow>
                  (\<forall>j<n. entry mat' i j = (if j = i then 1 else 0)))
           \<and> (\<forall>i val pre post. diriBC = pre @ (i, val) # post \<and> i \<notin> fst ` set post \<longrightarrow>
                  q' ! i = val)
           \<and> (\<forall>i<n. i \<notin> fst ` set diriBC \<longrightarrow>
                  (\<forall>j<n. entry mat' i j = entry mat i j) \<and> q' ! i = q ! i)"
proof -
  from impose_diriBC_rows[OF assms] obtain mat' q' where
    res: "impose_diriBC mat q diriBC = Inr (mat', q')"
    and wf: "nrows mat' = n" "ncols mat' = n" "length q' = n"
    and rows: "\<forall>r<n. rowdata mat' ! r =
                  (if r \<in> fst ` set diriBC then [(r, 1)]
                   else filter (\<lambda>(c, y). y \<noteq> 0) (rowdata mat ! r))"
    and rhs: "\<forall>r<n. q' ! r = (case map_of (rev diriBC) r of None \<Rightarrow> q ! r | Some x \<Rightarrow> x)"
    by blast
  have pinned: "\<forall>i<n. i \<in> fst ` set diriBC \<longrightarrow>
                  (\<forall>j<n. entry mat' i j = (if j = i then 1 else 0))"
    using rows by (simp add: entry_pinned_row)
  have last: "\<forall>i val pre post. diriBC = pre @ (i, val) # post \<and> i \<notin> fst ` set post \<longrightarrow>
                  q' ! i = val"
  proof (intro allI impI)
    fix i val pre post
    assume h: "diriBC = pre @ (i, val) # post \<and> i \<notin> fst ` set post"
    then have "map_of (rev diriBC) i = Some val"
      using map_of_rev_last[of diriBC pre i val post] by blast
    moreover from h assms(5) have "i < n" by (auto simp: list_all_iff)
    ultimately show "q' ! i = val" using rhs by simp
  qed
  have frame: "\<forall>i<n. i \<notin> fst ` set diriBC \<longrightarrow>
                  (\<forall>j<n. entry mat' i j = entry mat i j) \<and> q' ! i = q ! i"
  proof (intro allI impI)
    fix i assume i: "i < n" "i \<notin> fst ` set diriBC"
    from assms(1,2) i have d: "distinct (map fst (rowdata mat ! i))"
      by (simp add: canonical_def list_all_length)
    from rows i have "rowdata mat' ! i = filter (\<lambda>(c, y). y \<noteq> 0) (rowdata mat ! i)" by simp
    with d have "\<And>j. entry mat' i j = (case map_of (rowdata mat ! i) j of None \<Rightarrow> 0 | Some x \<Rightarrow> x)"
      by (rule entry_filtered_row)
    then have "\<And>j. entry mat' i j = entry mat i j"
      by (simp add: entry_def)
    moreover from rhs i have "q' ! i = q ! i" by (simp add: map_of_rev_none)
    ultimately show "(\<forall>j<n. entry mat' i j = entry mat i j) \<and> q' ! i = q ! i" by simp
  qed
  from res wf pinned last frame show ?thesis by blast
qed

text \<open>
  Claim C9. \<^verbatim>\<open>impose_diriBC\<close> is idempotent: under the conditions of C2, imposing the
  same list of pins on the matrix and the right-hand side that a first call left behind
  returns the same matrix, with the same stored entries, and the same right-hand side.
\<close>

theorem impose_diriBC_twice:
  assumes "canonical mat" "nrows mat = n" "ncols mat = n" "length q = n"
    and "list_all (\<lambda>(i, val). i < n) diriBC"
  shows "\<exists>mat' q'. impose_diriBC mat q diriBC = Inr (mat', q')
           \<and> impose_diriBC mat' q' diriBC = Inr (mat', q')"
proof -
  from impose_diriBC_rows[OF assms] obtain mat' q' where
    res: "impose_diriBC mat q diriBC = Inr (mat', q')"
    and wf: "canonical mat'" "nrows mat' = n" "ncols mat' = n" "length q' = n"
    and rows: "\<forall>r<n. rowdata mat' ! r =
                  (if r \<in> fst ` set diriBC then [(r, 1)]
                   else filter (\<lambda>(c, y). y \<noteq> 0) (rowdata mat ! r))"
    and rhs: "\<forall>r<n. q' ! r = (case map_of (rev diriBC) r of None \<Rightarrow> q ! r | Some x \<Rightarrow> x)"
    by blast
  from impose_diriBC_rows[OF wf assms(5)] obtain mat2 q2 where
    res2: "impose_diriBC mat' q' diriBC = Inr (mat2, q2)"
    and wf2: "canonical mat2" "nrows mat2 = n" "ncols mat2 = n" "length q2 = n"
    and rows2: "\<forall>r<n. rowdata mat2 ! r =
                  (if r \<in> fst ` set diriBC then [(r, 1)]
                   else filter (\<lambda>(c, y). y \<noteq> 0) (rowdata mat' ! r))"
    and rhs2: "\<forall>r<n. q2 ! r = (case map_of (rev diriBC) r of None \<Rightarrow> q' ! r | Some x \<Rightarrow> x)"
    by blast
  have "rowdata mat2 = rowdata mat'"
  proof (rule nth_equalityI)
    show "length (rowdata mat2) = length (rowdata mat')"
      using wf wf2 by (simp add: canonical_def)
  next
    fix r assume "r < length (rowdata mat2)"
    then have r: "r < n" using wf2 by (simp add: canonical_def)
    with rows rows2 show "rowdata mat2 ! r = rowdata mat' ! r" by simp
  qed
  then have m: "mat2 = mat'"
    using wf wf2 by (simp add: csr_matrix.equality)
  have "q2 = q'"
  proof (rule nth_equalityI)
    show "length q2 = length q'" using wf wf2 by simp
  next
    fix r assume "r < length q2"
    then have r: "r < n" using wf2 by simp
    with rhs rhs2 show "q2 ! r = q' ! r" by (simp split: option.splits)
  qed
  with m res res2 show ?thesis by simp
qed

theorem impose_diriBC_pins_witness:
  "canonical \<lparr>nrows = 2, ncols = 2, rowdata = [[(0, 3), (1, - 3)], [(0, - 3), (1, 3)]]\<rparr>
   \<and> list_all (\<lambda>(i, val). i < (2::nat)) [(0, 5::real), (0, 7)]
   \<and> (\<exists>mat' q'.
         impose_diriBC \<lparr>nrows = 2, ncols = 2, rowdata = [[(0, 3), (1, - 3)], [(0, - 3), (1, 3)]]\<rparr>
           [4, 6] [(0, 5), (0, 7)] = Inr (mat', q')
         \<and> entry mat' 0 0 = 1 \<and> entry mat' 0 1 = 0 \<and> q' ! 0 = 7
         \<and> entry mat' 1 0 = - 3 \<and> entry mat' 1 1 = 3 \<and> q' ! 1 = 6)"
proof -
  let ?M = "\<lparr>nrows = 2, ncols = 2, rowdata = [[(0, 3), (1, - 3)], [(0, - 3), (1, 3)]]\<rparr>"
  have c: "canonical ?M" by (simp add: canonical_def)
  have s: "nrows ?M = 2" "ncols ?M = 2" "length [4, 6::real] = 2" by simp_all
  have p: "list_all (\<lambda>(i, val). i < (2::nat)) [(0, 5::real), (0, 7)]" by simp
  from impose_diriBC_pins[OF c s p] obtain mat' q' where
    res: "impose_diriBC ?M [4, 6] [(0, 5), (0, 7)] = Inr (mat', q')"
    and pinned: "\<forall>i<2. i \<in> fst ` set [(0, 5::real), (0, 7)] \<longrightarrow>
                   (\<forall>j<2. entry mat' i j = (if j = i then 1 else 0))"
    and last: "\<forall>i val pre post. [(0, 5), (0, 7)] = pre @ (i, val) # post \<and> i \<notin> fst ` set post \<longrightarrow>
                   q' ! i = val"
    and frame: "\<forall>i<2. i \<notin> fst ` set [(0, 5::real), (0, 7)] \<longrightarrow>
                   (\<forall>j<2. entry mat' i j = entry ?M i j) \<and> q' ! i = [4, 6] ! i"
    by blast
  from pinned have "entry mat' 0 0 = 1" "entry mat' 0 1 = 0" by simp_all
  moreover from last[rule_format, of "[(0, 5)]" 0 7 "[]"] have "q' ! 0 = 7" by simp
  moreover from frame[rule_format, of 1] have "entry mat' 1 0 = - 3" "entry mat' 1 1 = 3" "q' ! 1 = 6"
    by (simp_all add: entry_def)
  ultimately show ?thesis using c p res by blast
qed

theorem impose_diriBC_twice_witness:
  "impose_diriBC \<lparr>nrows = 2, ncols = 2, rowdata = [[(0, 2), (1, - 2)], [(0, - 2), (1, 2)]]\<rparr>
     [0, 0] [(1, 9)]
     = Inr (\<lparr>nrows = 2, ncols = 2, rowdata = [[(0, 2), (1, - 2)], [(1, 1)]]\<rparr>, [0, 9])
   \<and> impose_diriBC \<lparr>nrows = 2, ncols = 2, rowdata = [[(0, 2), (1, - 2)], [(1, 1)]]\<rparr>
       [0, 9] [(1, 9)]
     = Inr (\<lparr>nrows = 2, ncols = 2, rowdata = [[(0, 2), (1, - 2)], [(1, 1)]]\<rparr>, [0, 9])"
proof -
  let ?M = "\<lparr>nrows = 2, ncols = 2, rowdata = [[(0, 2), (1, - 2)], [(0, - 2), (1, 2)]]\<rparr>"
  have first: "impose_diriBC ?M [0, 0] [(1, 9)]
      = Inr (\<lparr>nrows = 2, ncols = 2, rowdata = [[(0, 2), (1, - 2)], [(1, 1)]]\<rparr>, [0, 9])"
    by (simp add: impose_diriBC_def impose_pin_def csr_row_set_nz_to_val_def csr_setitem_def
          setitem1_def row_store_def eliminate_zeros_def on_ok_def)
  have c: "canonical ?M" by (simp add: canonical_def)
  have s: "nrows ?M = 2" "ncols ?M = 2" "length [0, 0::real] = 2" by simp_all
  have p: "list_all (\<lambda>(i, val). i < (2::nat)) [(1, 9::real)]" by simp
  from impose_diriBC_twice[OF c s p] first show ?thesis by simp
qed

section \<open>The pressure of a single pin\<close>




lemma keys_dia_cells:
  "map fst (concat (map (\<lambda>j. case g j of None \<Rightarrow> [] | Some x \<Rightarrow> if x = (0::real) then [] else [(j, x)]) js))
     = filter (\<lambda>j. case g j of None \<Rightarrow> False | Some x \<Rightarrow> x \<noteq> 0) js"
  by (induction js) (auto split: option.splits)

lemma canonical_spdiags:
  assumes "spdiags data diags m n = Inr mat"
  shows "canonical mat"
proof -
  from assms have r: "rowdata mat = map (dia_row data diags n) [0..<m]" and "nrows mat = m"
    by (auto simp: spdiags_def split: if_splits)
  moreover have "distinct (map fst (dia_row data diags n i))" for i
    unfolding dia_row_def keys_dia_cells by simp
  ultimately show ?thesis
    by (simp add: canonical_def list_all_iff)
qed

lemma transmi_matvec:
  assumes "ncell grid = ny grid * nx grid" "dx grid \<noteq> 0" "dy grid \<noteq> 0"
    and "2 \<le> nx grid" "1 \<le> ny grid" "has_shape (ny grid) (nx grid) k"
    and "transmi grid k = Inr (mat, tx, ty)" "r < ncell grid"
  shows "matvec mat p r =
           flat_y1 grid k ! r * (p ! r - (if nx grid \<le> r then p ! (r - nx grid) else p ! r))
           + flat_x1 grid k ! r * (p ! r - (if 1 \<le> r then p ! (r - 1) else p ! r))
           + flat_x2 grid k ! r * (p ! r - (if r + 1 < ncell grid then p ! (r + 1) else p ! r))
           + flat_y2 grid k ! r * (p ! r - (if r + nx grid < ncell grid then p ! (r + nx grid) else p ! r))"
proof -
  let ?n = "ncell grid" and ?w = "nx grid"
  let ?x1 = "flat_x1 grid k" and ?x2 = "flat_x2 grid k"
  let ?y1 = "flat_y1 grid k" and ?y2 = "flat_y2 grid k"
  have w1: "1 \<le> ?w" using assms(4) by simp
  from transmi_entries[OF assms(1-6)] assms(7) have
    sh: "ncols mat = ?n"
    and en: "\<And>r c. r < ?n \<Longrightarrow> c < ?n \<Longrightarrow> entry mat r c =
                 (if c + ?w = r then - (?y2 ! c)
                  else if c + 1 = r then - (?x2 ! c)
                  else if c = r then ?x1 ! c + ?x2 ! c + ?y1 ! c + ?y2 ! c
                  else if c = r + 1 then - (?x1 ! c)
                  else if c = r + ?w then - (?y1 ! c)
                  else 0)"
    by auto
  have r: "r < ny grid * ?w" using assms(1,8) by simp
  note sh3 = assms(6) w1 assms(5)
  note fs = faces_south[OF sh3 r] and fw = faces_west[OF sh3 r]
    and fe = faces_east[OF sh3 r, folded assms(1)] and fn = faces_north[OF sh3 r, folded assms(1)]
  have "matvec mat p r = (\<Sum>c = 0..<?n. entry mat r c * p ! c)"
    by (simp add: matvec_def sh interv_sum_list_conv_sum_set_nat)
  also have "\<dots> =
           (if ?w \<le> r then - (?y2 ! (r - ?w)) * p ! (r - ?w) else 0)
           + (if 1 \<le> r then - (?x2 ! (r - 1)) * p ! (r - 1) else 0)
           + (?x1 ! r + ?x2 ! r + ?y1 ! r + ?y2 ! r) * p ! r
           + (if r + 1 < ?n then - (?x1 ! (r + 1)) * p ! (r + 1) else 0)
           + (if r + ?w < ?n then - (?y1 ! (r + ?w)) * p ! (r + ?w) else 0)"
    using assms(4,8)
  proof (rule five_point_sum)
    fix c assume "c < ?n"
    from en[OF assms(8) this]
    show "entry mat r c * p ! c =
            (if c + ?w = r then - (?y2 ! c) * p ! c else if c + 1 = r then - (?x2 ! c) * p ! c
             else if c = r then (?x1 ! c + ?x2 ! c + ?y1 ! c + ?y2 ! c) * p ! c
             else if c = r + 1 then - (?x1 ! c) * p ! c
             else if c = r + ?w then - (?y1 ! c) * p ! c else 0)"
      by simp
  qed
  also have "\<dots> =
           ?y1 ! r * (p ! r - (if ?w \<le> r then p ! (r - ?w) else p ! r))
           + ?x1 ! r * (p ! r - (if 1 \<le> r then p ! (r - 1) else p ! r))
           + ?x2 ! r * (p ! r - (if r + 1 < ?n then p ! (r + 1) else p ! r))
           + ?y2 ! r * (p ! r - (if r + ?w < ?n then p ! (r + ?w) else p ! r))"
    using fs fw fe fn by (auto simp: algebra_simps split: if_splits)
  finally show ?thesis .
qed





lemma transmi_canonical:
  assumes "ncell grid = ny grid * nx grid" "dx grid \<noteq> 0" "dy grid \<noteq> 0"
    and "1 \<le> nx grid" "1 \<le> ny grid" "has_shape (ny grid) (nx grid) k"
    and "transmi grid k = Inr (mat, tx, ty)"
  shows "canonical mat" "tx = face_tx grid k" "ty = face_ty grid k"
proof -
  from transmi_unfold[OF assms(1-6)] assms(7) obtain m where
    "spdiags (transmi_data grid k) [- int (nx grid), - 1, 0, 1, int (nx grid)]
       (ncell grid) (ncell grid) = Inr m" and "(mat, tx, ty) = (m, face_tx grid k, face_ty grid k)"
    by (auto simp: on_ok_def split: sum.splits)
  then show "canonical mat" "tx = face_tx grid k" "ty = face_ty grid k"
    using canonical_spdiags by auto
qed



lemma matvec_pinned_row:
  assumes "rowdata mat ! i = [(i, 1)]" "i < ncols mat"
  shows "matvec mat p i = p ! i"
proof -
  have "matvec mat p i = (\<Sum>c = 0..<ncols mat. (if c = i then 1 else 0) * p ! c)"
    using entry_pinned_row[OF assms(1)]
    by (simp add: matvec_def interv_sum_list_conv_sum_set_nat)
  also have "\<dots> = (\<Sum>c = 0..<ncols mat. if c = i then p ! c else 0)"
    by (intro sum.cong refl) simp
  also have "\<dots> = p ! i" using assms(2) by simp
  finally show ?thesis .
qed

lemma matvec_same_row:
  assumes "\<And>c. entry mat1 r c = entry mat r c" "ncols mat1 = ncols mat"
  shows "matvec mat1 p r = matvec mat p r"
  using assms by (simp add: matvec_def)

lemma imposed_single_pin:
  assumes "canonical mat" "nrows mat = n" "ncols mat = n" "length q = n" "i < n"
    and "impose_diriBC mat q [(i, val)] = Inr (mat1, q1)"
  shows "nrows mat1 = n" "ncols mat1 = n" "length q1 = n"
    and "matvec mat1 p i = p ! i" "q1 ! i = val"
    and "\<And>r. r < n \<Longrightarrow> r \<noteq> i \<Longrightarrow> matvec mat1 p r = matvec mat p r \<and> q1 ! r = q ! r"
proof -
  have pins: "list_all (\<lambda>(i, x). i < n) [(i, val)]" using assms(5) by simp
  from impose_diriBC_rows[OF assms(1-4) pins] obtain m' q' where
    res: "impose_diriBC mat q [(i, val)] = Inr (m', q')"
    and sh': "nrows m' = n" "ncols m' = n" "length q' = n"
    and rows': "\<forall>r<n. rowdata m' ! r =
                  (if r \<in> fst ` set [(i, val)] then [(r, 1)]
                   else filter (\<lambda>(c, y). y \<noteq> 0) (rowdata mat ! r))"
    and rhs': "\<forall>r<n. q' ! r = (case map_of (rev [(i, val)]) r of None \<Rightarrow> q ! r | Some x \<Rightarrow> x)"
    by blast
  from res assms(6) have eq: "m' = mat1" "q' = q1" by simp_all
  note sh = sh'[unfolded eq] and rows = rows'[unfolded eq] and rhs = rhs'[unfolded eq]
  show "nrows mat1 = n" "ncols mat1 = n" "length q1 = n" by (rule sh)+
  from rows assms(5) have "rowdata mat1 ! i = [(i, 1)]" by simp
  then show "matvec mat1 p i = p ! i"
    using assms(5) sh(2) by (simp add: matvec_pinned_row)
  from rhs assms(5) show "q1 ! i = val" by simp
  fix r assume r: "r < n" "r \<noteq> i"
  from assms(1,2) r have d: "distinct (map fst (rowdata mat ! r))"
    by (simp add: canonical_def list_all_length)
  from rows r have "rowdata mat1 ! r = filter (\<lambda>(c, y). y \<noteq> 0) (rowdata mat ! r)" by simp
  with d have "\<And>c. entry mat1 r c = (case map_of (rowdata mat ! r) c of None \<Rightarrow> 0 | Some x \<Rightarrow> x)"
    by (rule entry_filtered_row)
  then have "\<And>c. entry mat1 r c = entry mat r c"
    by (simp add: entry_def)
  then have "matvec mat1 p r = matvec mat p r"
  proof (rule matvec_same_row)
    show "ncols mat1 = ncols mat" using sh(2) assms(3) by simp
  qed
  moreover from rhs r have "q1 ! r = q ! r" by simp
  ultimately show "matvec mat1 p r = matvec mat p r \<and> q1 ! r = q ! r" ..
qed





text \<open>The constant field does solve the assembled system, so an exact solution exists.\<close>

lemma constant_solves:
  assumes "ncell grid = ny grid * nx grid" "dx grid \<noteq> 0" "dy grid \<noteq> 0"
    and "2 \<le> nx grid" "1 \<le> ny grid" "has_shape (ny grid) (nx grid) k"
    and "transmi grid k = Inr (mat, tx, ty)"
    and "i < ncell grid" "length q = ncell grid" "\<And>r. r < ncell grid \<Longrightarrow> r \<noteq> i \<Longrightarrow> q ! r = 0"
    and "impose_diriBC mat q [(i, val)] = Inr (mat1, q1)"
  shows "solves mat1 q1 (replicate (ncell grid) val)"
proof -
  let ?n = "ncell grid"
  let ?p = "replicate ?n val"
  have w1: "1 \<le> nx grid" using assms(4) by simp
  from transmi_entries[OF assms(1-6)] assms(7) have sh: "nrows mat = ?n" "ncols mat = ?n" by auto
  have can: "canonical mat" using transmi_canonical(1)[OF assms(1-3) w1 assms(5,6,7)] .
  note imp = imposed_single_pin[OF can sh assms(9,8,11)]
  have "matvec mat1 ?p r = q1 ! r" if r: "r < ?n" for r
  proof (cases "r = i")
    case True
    with imp(4)[of ?p] imp(5) assms(8) show ?thesis by simp
  next
    case False
    have "matvec mat ?p r = 0"
      unfolding transmi_matvec[OF assms(1-7) r, of ?p] using r by simp
    with imp(6)[OF r False, of ?p] assms(10)[OF r False] show ?thesis by simp
  qed
  then show ?thesis
    by (simp add: solves_def imp(1,2) list_all_iff)
qed



section \<open>The solver object: construction, update and step\<close>

text \<open>
  A permeability array whose first row has two entries or more never passes the setter:
  the builtin \<^verbatim>\<open>all\<close> asks for the truth value of that row.
\<close>

lemma k_setter_wide: "k_setter self ((a # b # r) # rest) = Inl ValueError"
  by (simp add: k_setter_def on_ok_def)

text \<open>A one-column array passes the setter exactly when all its entries are positive.\<close>

lemma py_all_column:
  "py_all (map (\<lambda>x. [0 < (x::real)]) xs) = Inr (list_all (\<lambda>x. 0 < x) xs)"
  by (induction xs) (simp_all add: on_ok_def)

lemma update_s: "self_s (update self [P_s s]) = s"
  by (simp add: update_def)

text \<open>No step of the solver reads the dictionary entry that \<^verbatim>\<open>update(k=...)\<close> writes.\<close>

lemma effective_k_dict_k: "effective_k (self\<lparr>dict_k := d\<rparr>) k = effective_k self k"
  by (simp add: effective_k_def split: option.splits prod.splits)

lemma step_fields_dict_k:
  "step_fields spsolve (self\<lparr>dict_k := d\<rparr>) = step_fields spsolve self"
  by (simp add: step_fields_def effective_k_dict_k k_getter_def diriBC_getter_def)

lemma step_dict_k:
  "map_sum id self_p (step spsolve (self\<lparr>dict_k := d\<rparr>)) = map_sum id self_p (step spsolve self)"
  by (simp add: step_def step_fields_dict_k on_ok_def split: sum.splits prod.splits)

text \<open>
  Claim C7 (the code departs from it). The claim: assigning the permeability field
  fails when the array has a non-positive entry and succeeds, storing the array, when
  every entry of the \<open>(ny, nx)\<close> array is positive. The code: the assertion
  \<^verbatim>\<open>all(k > 0)\<close> calls Python's builtin \<^verbatim>\<open>all\<close>, which takes the truth value of
  each row of the comparison array; for the all-ones array of shape \<open>(3, 3)\<close> that
  raises ValueError, and nothing is stored.
\<close>

theorem k_setter_ones_3x3_raises:
  "k_setter self [[1, 1, 1], [1, 1, 1], [1, 1, 1]] = Inl ValueError"
  by (simp add: k_setter_def on_ok_def)

text \<open>
  Claim C1 (the code departs from it). The claim: a solver constructed with the
  Dirichlet list \<open>L\<close> holds \<open>L\<close>, and \<^verbatim>\<open>step()\<close> applies its pins; for
  \<^verbatim>\<open>Grid(3,3)\<close>, \<^verbatim>\<open>k = ones((3,3))\<close>, \<^verbatim>\<open>q = zeros(9)\<close> and
  \<^verbatim>\<open>diriBC=[(4, 0.0), (0, 1.0)]\<close> the pressure is 1 in cell 0 and 0 in cell 4.
  The code, at that input: the constructor raises ValueError when it assigns \<^verbatim>\<open>k\<close>;
  the setter of \<^verbatim>\<open>diriBC\<close> leaves the object as it was when it is given a list; and on
  the object as the constructor would leave it had the assignment of \<^verbatim>\<open>k\<close> passed,
  \<^verbatim>\<open>step()\<close> raises AttributeError when it reads \<^verbatim>\<open>self.diriBC\<close>, whatever the
  linear solver is.
\<close>

theorem given_diriBC_is_dropped:
  "on_ok (Grid_init 3 3 1 1) (\<lambda>grid.
     PressureSolver_init grid [[1, 1, 1], [1, 1, 1], [1, 1, 1]]
       (A1 [0, 0, 0, 0, 0, 0, 0, 0, 0]) (Some [(4, 0), (0, 1)]) None None) = Inl ValueError
   \<and> diriBC_setter self (Some [(4, 0), (0, 1)]) = self
   \<and> on_ok (Grid_init 3 3 1 1) (\<lambda>grid.
       step spsolve ((blank grid (A1 [0, 0, 0, 0, 0, 0, 0, 0, 0]))
         \<lparr>self_k := Some [[1, 1, 1], [1, 1, 1], [1, 1, 1]]\<rparr>)) = Inl AttributeError"
  by (simp add: eval_defs step_defs eval_nat_numeral)

text \<open>
  Claim C8 (the code departs from it). The claim: \<^verbatim>\<open>update(k=k_new)\<close> checks
  \<open>k_new\<close> and makes the next \<^verbatim>\<open>step()\<close> assemble the system from it. The code:
  \<^verbatim>\<open>update\<close> writes the instance dictionary, which the property \<^verbatim>\<open>k\<close> never
  reads, and runs no check. After \<^verbatim>\<open>update(k=k_new)\<close>, for every \<open>k_new\<close>, the
  property returns what it returned before and \<^verbatim>\<open>step()\<close> computes the pressure it
  computed before: on the solver for \<^verbatim>\<open>Grid(1,2)\<close> with \<^verbatim>\<open>k = [[1],[1]]\<close>, after
  \<^verbatim>\<open>update(k=[[2],[2]])\<close> the permeability read back is still \<^verbatim>\<open>[[1],[1]]\<close>.
\<close>

theorem update_k_is_not_read:
  "k_getter (update self [P_k k_new]) = k_getter self
   \<and> map_sum id self_p (step spsolve (update self [P_k k_new]))
       = map_sum id self_p (step spsolve self)
   \<and> on_ok (Grid_init 1 2 1 1) (\<lambda>grid.
       on_ok (PressureSolver_init grid [[1], [1]] (A1 [0, 0]) None None None)
         (\<lambda>self. k_getter (update self [P_k [[2], [2]]]))) = Inr [[1], [1]]"
  by (simp add: eval_defs step_dict_k)

end
